theory Spec2Isabelle
  imports Main "HOL-Library.Sublist" "HOL-Library.Char_ord" "HOL-Library.List_Lexorder"
    "HOL-Library.AList"
begin

section \<open>Go strings\<close>

text \<open>
  A Go string is a byte sequence; it is modelled as \<open>string\<close> (a list of 8-bit
  characters), so \<open>length\<close> is Go's \<open>len\<close>. The functions of package \<open>strings\<close>
  and \<open>strconv\<close> that the repository calls are written out below. Case mapping and
  white space are those of ASCII: the names, phases and console lines handled by the
  program are ASCII text.
\<close>

definition isSpace :: "char \<Rightarrow> bool" where
  "isSpace c =
     (c = CHR 0x09 \<or> c = CHR 0x0A \<or> c = CHR 0x0B \<or> c = CHR 0x0C \<or> c = CHR 0x0D \<or> c = CHR '' '')"

definition TrimSpace :: "string \<Rightarrow> string" where
  "TrimSpace s = rev (dropWhile isSpace (rev (dropWhile isSpace s)))"

definition toLowerChar :: "char \<Rightarrow> char" where
  "toLowerChar c =
     (case map_of (zip ''ABCDEFGHIJKLMNOPQRSTUVWXYZ'' ''abcdefghijklmnopqrstuvwxyz'') c of
        None \<Rightarrow> c
      | Some l \<Rightarrow> l)"

definition toUpperChar :: "char \<Rightarrow> char" where
  "toUpperChar c =
     (case map_of (zip ''abcdefghijklmnopqrstuvwxyz'' ''ABCDEFGHIJKLMNOPQRSTUVWXYZ'') c of
        None \<Rightarrow> c
      | Some u \<Rightarrow> u)"

definition ToLower :: "string \<Rightarrow> string" where
  "ToLower s = map toLowerChar s"

definition ToUpper :: "string \<Rightarrow> string" where
  "ToUpper s = map toUpperChar s"

text \<open>\<open>strings.Index\<close>: the position of the first occurrence, \<open>None\<close> for Go's -1.\<close>

fun Index :: "string \<Rightarrow> string \<Rightarrow> nat option" where
  "Index [] substr = (if substr = [] then Some 0 else None)"
| "Index (c # s) substr =
     (if prefix substr (c # s) then Some 0 else map_option Suc (Index s substr))"

definition Contains :: "string \<Rightarrow> string \<Rightarrow> bool" where
  "Contains s substr = (Index s substr \<noteq> None)"

definition HasPrefix :: "string \<Rightarrow> string \<Rightarrow> bool" where
  "HasPrefix s pre = prefix pre s"

definition HasSuffix :: "string \<Rightarrow> string \<Rightarrow> bool" where
  "HasSuffix s suf = suffix suf s"

lemma Index_bound: "Index s substr = Some i \<Longrightarrow> i + length substr \<le> length s"
proof (induction s arbitrary: i)
  case Nil
  then show ?case by (simp split: if_splits)
next
  case (Cons c s)
  show ?case
  proof (cases "prefix substr (c # s)")
    case True
    with Cons.prems have "i = 0" by simp
    with True show ?thesis using prefix_length_le by fastforce
  next
    case False
    with Cons.prems obtain j where j: "Index s substr = Some j" "i = Suc j" by auto
    from Cons.IH [OF j(1)] j(2) show ?thesis by simp
  qed
qed

text \<open>
  \<open>strings.Split(s, sep)\<close> with all pieces kept: cut at the leftmost occurrence of
  \<open>sep\<close> and go on behind it, as Go's \<open>genSplit\<close> does with \<open>Index\<close>. An empty
  separator explodes the string into its characters.
\<close>

function Split :: "string \<Rightarrow> string \<Rightarrow> string list" where
  "Split s sep =
     (if sep = [] then map (\<lambda>c. [c]) s
      else (case Index s sep of
              None \<Rightarrow> [s]
            | Some i \<Rightarrow> take i s # Split (drop (i + length sep) s) sep))"
  by pat_completeness auto
termination
proof (relation "measure (\<lambda>(s, sep). length s)")
  fix s sep :: string and i
  assume "sep \<noteq> []" and "Index s sep = Some i"
  then have "0 < length sep" and "i + length sep \<le> length s"
    using Index_bound by auto
  then have "length s - (i + length sep) < length s"
    by linarith
  then show "((drop (i + length sep) s, sep), (s, sep)) \<in> measure (\<lambda>(s, sep). length s)"
    by simp
qed simp

declare Split.simps [simp del]

fun Join :: "string list \<Rightarrow> string \<Rightarrow> string" where
  "Join [] sep = []"
| "Join [x] sep = x"
| "Join (x # y # ys) sep = x @ sep @ Join (y # ys) sep"

text \<open>\<open>strings.Fields\<close>: the maximal runs of characters that are not white space.\<close>

fun fieldsFrom :: "string \<Rightarrow> string \<Rightarrow> string list" where
  "fieldsFrom cur [] = (if cur = [] then [] else [cur])"
| "fieldsFrom cur (c # s) =
     (if isSpace c then (if cur = [] then fieldsFrom [] s else cur # fieldsFrom [] s)
      else fieldsFrom (cur @ [c]) s)"

definition Fields :: "string \<Rightarrow> string list" where
  "Fields s = fieldsFrom [] s"

text \<open>
  \<open>strconv.Atoi\<close>: an optional sign and one or more decimal digits, nothing else; the
  value must fit Go's 64-bit \<open>int\<close>. \<open>Inl\<close> carries the error; its text (Go quotes the
  string in it) is never read by the program, which only tests for an error.
\<close>

definition isDigit :: "char \<Rightarrow> bool" where
  "isDigit c = (c \<in> set ''0123456789'')"

definition digitVal :: "char \<Rightarrow> int" where
  "digitVal c = int (length (takeWhile (\<lambda>d. d \<noteq> c) ''0123456789''))"

definition decimal :: "string \<Rightarrow> int" where
  "decimal ds = foldl (\<lambda>n c. 10 * n + digitVal c) 0 ds"

definition Atoi :: "string \<Rightarrow> string + int" where
  "Atoi s =
     (let neg = (s \<noteq> [] \<and> hd s = CHR ''-'');
          ds = (if s \<noteq> [] \<and> (hd s = CHR ''+'' \<or> hd s = CHR ''-'') then tl s else s)
      in if ds = [] \<or> \<not> list_all isDigit ds then Inl (''strconv.Atoi: parsing '' @ s @ '': invalid syntax'')
         else (let n = (if neg then - decimal ds else decimal ds)
               in if n < - (2 ^ 63) \<or> 2 ^ 63 - 1 < n
                  then Inl (''strconv.Atoi: parsing '' @ s @ '': value out of range'')
                  else Inr n))"

text \<open>\<open>%d\<close> of a number that is not negative.\<close>

fun itoa :: "nat \<Rightarrow> string" where
  "itoa n =
     (if n < 10 then [''0123456789'' ! n]
      else itoa (n div 10) @ [''0123456789'' ! (n mod 10)])"

declare itoa.simps [simp del]

subsection \<open>Facts about the string functions\<close>

lemma Index_single:
  "Index s [c] = (if c \<in> set s then Some (length (takeWhile (\<lambda>x. x \<noteq> c) s)) else None)"
  by (induction s) auto

lemma Contains_single: "Contains s [c] \<longleftrightarrow> c \<in> set s"
  by (simp add: Contains_def Index_single)

lemma drop_takeWhile_tl:
  "drop (Suc (length (takeWhile P s))) s = tl (dropWhile P s)"
  by (induction s) auto

lemma Split_single_in:
  assumes "c \<in> set s"
  shows "Split s [c] = takeWhile (\<lambda>x. x \<noteq> c) s # Split (tl (dropWhile (\<lambda>x. x \<noteq> c) s)) [c]"
proof -
  have "Split s [c] =
      take (length (takeWhile (\<lambda>x. x \<noteq> c) s)) s
        # Split (drop (length (takeWhile (\<lambda>x. x \<noteq> c) s) + length [c]) s) [c]"
    using assms by (subst Split.simps) (simp add: Index_single)
  moreover have "take (length (takeWhile (\<lambda>x. x \<noteq> c) s)) s = takeWhile (\<lambda>x. x \<noteq> c) s"
    by (induction s) auto
  ultimately show ?thesis by (simp add: drop_takeWhile_tl)
qed

lemma Split_single_notin: "c \<notin> set s \<Longrightarrow> Split s [c] = [s]"
  by (subst Split.simps) (simp add: Index_single)

lemma Split_not_Nil: "sep \<noteq> [] \<Longrightarrow> Split s sep \<noteq> []"
  by (subst Split.simps) (simp split: option.splits)

lemma Index_decomp:
  "Index s substr = Some i \<Longrightarrow> s = take i s @ substr @ drop (i + length substr) s"
proof (induction s arbitrary: i)
  case Nil
  then show ?case by (simp split: if_splits)
next
  case (Cons c s)
  show ?case
  proof (cases "prefix substr (c # s)")
    case True
    with Cons.prems have i: "i = 0" by simp
    from True obtain r where "c # s = substr @ r" by (auto simp: prefix_def)
    with i show ?thesis by simp
  next
    case False
    with Cons.prems obtain j where j: "Index s substr = Some j" "i = Suc j" by auto
    from Cons.IH [OF j(1)] j(2) show ?thesis by simp
  qed
qed

lemma Join_Cons: "Join (x # xs) sep = (if xs = [] then x else x @ sep @ Join xs sep)"
  by (cases xs) auto

lemma Join_Split: "sep \<noteq> [] \<Longrightarrow> Join (Split s sep) sep = s"
proof (induction s sep rule: Split.induct)
  case (1 s sep)
  show ?case
  proof (cases "Index s sep")
    case None
    with "1.prems" show ?thesis by (subst Split.simps) simp
  next
    case (Some i)
    have "Join (Split (drop (i + length sep) s) sep) sep = drop (i + length sep) s"
      using "1.IH" [OF "1.prems" Some] "1.prems" by simp
    moreover have "Split s sep = take i s # Split (drop (i + length sep) s) sep"
      using "1.prems" Some by (subst Split.simps) simp
    ultimately show ?thesis
      using Index_decomp [OF Some] Split_not_Nil [OF "1.prems", of "drop (i + length sep) s"]
      by (simp add: Join_Cons)
  qed
qed

lemma takeWhile_dropWhile_single:
  assumes "c \<in> set s"
  shows "s = takeWhile (\<lambda>x. x \<noteq> c) s @ [c] @ tl (dropWhile (\<lambda>x. x \<noteq> c) s)"
proof -
  from assms have "dropWhile (\<lambda>x. x \<noteq> c) s \<noteq> []" by simp
  moreover from this have "hd (dropWhile (\<lambda>x. x \<noteq> c) s) = c"
    using hd_dropWhile [of "\<lambda>x. x \<noteq> c" s] by simp
  ultimately have "dropWhile (\<lambda>x. x \<noteq> c) s = c # tl (dropWhile (\<lambda>x. x \<noteq> c) s)"
    by (cases "dropWhile (\<lambda>x. x \<noteq> c) s") auto
  then show ?thesis
    using takeWhile_dropWhile_id [of "\<lambda>x. x \<noteq> c" s] by simp
qed

text \<open>Equations that evaluate \<open>Split\<close> on a literal, one character at a time.\<close>

lemma Split_single_Nil: "Split [] [c] = [[]]"
  by (simp add: Split_single_notin)

lemma Split_single_Cons:
  "Split (x # s) [c] =
     (if x = c then [] # Split s [c]
      else (case Split s [c] of [] \<Rightarrow> [] | p # ps \<Rightarrow> (x # p) # ps))"
proof (cases "x = c")
  case True
  then show ?thesis by (simp add: Split_single_in)
next
  case False
  show ?thesis
  proof (cases "c \<in> set s")
    case True
    with False show ?thesis by (simp add: Split_single_in)
  next
    case False
    with \<open>x \<noteq> c\<close> show ?thesis by (simp add: Split_single_notin)
  qed
qed

lemmas eval_strings =
  Contains_def HasPrefix_def HasSuffix_def Split_single_Nil Split_single_Cons ToLower_def
  toLowerChar_def ToUpper_def toUpperChar_def TrimSpace_def isSpace_def Fields_def
  Atoi_def isDigit_def digitVal_def decimal_def

section \<open>The data model (package types)\<close>

record DockerVolumeInfo =
  Name :: string
  Mountpoint :: string
  Size :: int
  SizeHuman :: string

text \<open>
  \<open>PVCInfo\<close>; its field \<open>Name\<close> is \<open>PVCName\<close> here, since a record field name is
  global and \<open>DockerVolumeInfo\<close> has \<open>Name\<close>. \<open>MatchedVolume\<close> is a pointer that
  may be nil: \<open>None\<close>.
\<close>

record PVCInfo =
  PVCName :: string
  Namespace :: string
  RequestedSize :: string
  MatchedVolume :: "DockerVolumeInfo option"
  NewSize :: string

text \<open>
  A Go \<open>map[string]V\<close> is an association list with distinct keys. Its order is the
  order in which a \<open>range\<close> loop visits the entries, which Go leaves unspecified: what is
  proved below holds for every order.
\<close>

type_synonym 'v gomap = "(string \<times> 'v) list"

section \<open>The matcher (internal/matcher/volume_matcher.go)\<close>

text \<open>\<open>extractPVCParts\<close>, lines 207-231.\<close>

definition extractPVCParts :: "string \<Rightarrow> string list" where
  "extractPVCParts pvcName =
     (let cleanName =
            (if Contains pvcName ''-''
             then (let parts = Split pvcName ''-''
                   in if length parts > 1 then Join (drop 1 parts) ''-'' else pvcName)
             else pvcName);
          parts =
            concat (map (\<lambda>separator.
                map ToLower (filter (\<lambda>part. length part > 1) (Split cleanName separator)))
              [''-'', ''_''])
      in parts @ [ToLower cleanName])"

text \<open>\<open>volumeContainsPVCParts\<close>, lines 233-244.\<close>

definition volumeContainsPVCParts :: "string \<Rightarrow> string list \<Rightarrow> bool" where
  "volumeContainsPVCParts volumeName pvcParts =
     (let volumeNameLower = ToLower volumeName
      in list_ex (\<lambda>part. Contains volumeNameLower part) pvcParts)"

text \<open>
  \<open>findVolumesContainingPVCName\<close>, lines 187-205, and \<open>getAllDockerVolumes\<close>, lines
  246-258: the values of the map that pass the test, sorted by name. \<open>sort.Slice\<close> is
  not stable; volumes of the same name keep the order of the map's iteration here.
\<close>

definition findVolumesContainingPVCName ::
  "DockerVolumeInfo gomap \<Rightarrow> PVCInfo \<Rightarrow> DockerVolumeInfo list" where
  "findVolumesContainingPVCName dockerVolumes pvc =
     (let pvcParts = extractPVCParts (PVCName pvc);
          candidates =
            filter (\<lambda>volume. volumeContainsPVCParts (Name volume) pvcParts)
              (map snd dockerVolumes)
      in sort_key Name candidates)"

definition getAllDockerVolumes :: "DockerVolumeInfo gomap \<Rightarrow> DockerVolumeInfo list" where
  "getAllDockerVolumes dockerVolumes = sort_key Name (map snd dockerVolumes)"

text \<open>\<open>calculateComposeMatchScore\<close>, lines 165-185.\<close>

definition calculateComposeMatchScore :: "string \<Rightarrow> string \<Rightarrow> int" where
  "calculateComposeMatchScore volumeName dockerVolumeName =
     (let score = 0;
          score =
            (if Contains (ToLower dockerVolumeName) (ToLower volumeName)
             then score + 3 else score);
          score =
            (if HasSuffix (ToLower dockerVolumeName) (ToLower volumeName)
             then score + 2 else score);
          score =
            (if Contains (ToLower dockerVolumeName) (''_'' @ ToLower volumeName) \<or>
                Contains (ToLower dockerVolumeName) (''-'' @ ToLower volumeName)
             then score + 4 else score)
      in score)"

text \<open>
  \<open>findFuzzyMatchForCompose\<close>, lines 146-163. The loop over the map's keys carries
  \<open>bestMatch\<close> and \<open>bestScore\<close>.
\<close>

definition fuzzyStep :: "string \<Rightarrow> string \<Rightarrow> string \<times> int \<Rightarrow> string \<times> int" where
  "fuzzyStep volumeName dockerVolumeName best =
     (let score = calculateComposeMatchScore volumeName dockerVolumeName
      in if score > snd best \<and> score > 0 then (dockerVolumeName, score) else best)"

definition findFuzzyMatchForCompose ::
  "DockerVolumeInfo gomap \<Rightarrow> string \<Rightarrow> DockerVolumeInfo option" where
  "findFuzzyMatchForCompose dockerVolumes volumeName =
     (let best = fold (fuzzyStep volumeName) (map fst dockerVolumes) ('''', 0);
          bestMatch = fst best
      in if bestMatch \<noteq> '''' then map_of dockerVolumes bestMatch else None)"

text \<open>
  \<open>findDockerVolumeForMapping\<close>, lines 128-144, the only caller of the fuzzy match,
  with \<open>VolumeMapping\<close> and \<open>GetVolumeVariations\<close> of package compose. The project name
  is the parser's field. A lookup in the map finds a name or not.
\<close>

record VolumeMapping =
  ServiceName :: string
  VolumeName :: string
  DockerVolume :: string
  MountPath :: string

definition GetVolumeVariations :: "string \<Rightarrow> string \<Rightarrow> string list" where
  "GetVolumeVariations projectName volumeName =
     [projectName @ ''_'' @ volumeName,
      volumeName,
      projectName @ ''-'' @ volumeName,
      ToUpper projectName @ ''_'' @ volumeName,
      ToUpper projectName @ ''-'' @ volumeName]"

fun firstVariation :: "DockerVolumeInfo gomap \<Rightarrow> string list \<Rightarrow> DockerVolumeInfo option" where
  "firstVariation dockerVolumes [] = None"
| "firstVariation dockerVolumes (variation # variations) =
     (case map_of dockerVolumes variation of
        Some volume \<Rightarrow> Some volume
      | None \<Rightarrow> firstVariation dockerVolumes variations)"

definition findDockerVolumeForMapping ::
  "string \<Rightarrow> DockerVolumeInfo gomap \<Rightarrow> VolumeMapping \<Rightarrow> DockerVolumeInfo option" where
  "findDockerVolumeForMapping projectName dockerVolumes mapping =
     (case map_of dockerVolumes (DockerVolume mapping) of
        Some volume \<Rightarrow> Some volume
      | None \<Rightarrow>
          (case firstVariation dockerVolumes
                  (GetVolumeVariations projectName (VolumeMapping.VolumeName mapping)) of
             Some volume \<Rightarrow> Some volume
           | None \<Rightarrow> findFuzzyMatchForCompose dockerVolumes (VolumeMapping.VolumeName mapping)))"

section \<open>The Docker client (internal/docker/client.go)\<close>

text \<open>
  What the program reads from outside is an argument of the model: the daemon's reply to
  \<open>VolumeList\<close>, the output of \<open>docker system df -v\<close> (or the error of running
  it), and the file-system walk \<open>getVolumeSize\<close>. The messages the client prints are
  left out.
\<close>

record volumeSize =
  bytes :: int
  human :: string
  links :: int

text \<open>The two fields of the daemon's \<open>volume.Volume\<close> that \<open>LoadVolumes\<close> reads.\<close>

record Volume =
  VolumeName :: string
  VolumeMountpoint :: string

text \<open>
  \<open>parseSizeString\<close>, lines 147-184. The regular expression
  \<^verbatim>\<open>^(\d+(?:\.\d+)?)\s*([KMGTPE]?B)$\<close> is matched by hand: digits, an optional
  fraction, optional white space (\<^verbatim>\<open>[\t\n\f\r ]\<close>), the unit, the end. The
  floating-point steps, \<open>strconv.ParseFloat\<close> and \<open>int64(value * float64(multiplier))\<close>,
  are the parameters \<open>ParseFloat\<close> and \<open>scale\<close> over a type \<open>'f\<close> of floats.
\<close>

definition isReSpace :: "char \<Rightarrow> bool" where
  "isReSpace c = (c = CHR 0x09 \<or> c = CHR 0x0A \<or> c = CHR 0x0C \<or> c = CHR 0x0D \<or> c = CHR '' '')"

definition matchSize :: "string \<Rightarrow> (string \<times> string) option" where
  "matchSize s =
     (let intPart = takeWhile isDigit s;
          r1 = dropWhile isDigit s;
          hasFrac = (r1 \<noteq> [] \<and> hd r1 = CHR ''.'' \<and> tl r1 \<noteq> [] \<and> isDigit (hd (tl r1)));
          frac = (if hasFrac then CHR ''.'' # takeWhile isDigit (tl r1) else []);
          r2 = (if hasFrac then dropWhile isDigit (tl r1) else r1);
          unit = dropWhile isReSpace r2
      in if intPart \<noteq> [] \<and> unit \<in> set [''B'', ''KB'', ''MB'', ''GB'', ''TB'', ''PB'', ''EB'']
         then Some (intPart @ frac, unit)
         else None)"

definition unitMultiplier :: "string \<Rightarrow> int option" where
  "unitMultiplier unit =
     (if unit = ''B'' then Some 1
      else if unit = ''KB'' then Some 1000
      else if unit = ''MB'' then Some (1000 * 1000)
      else if unit = ''GB'' then Some (1000 * 1000 * 1000)
      else if unit = ''TB'' then Some (1000 * 1000 * 1000 * 1000)
      else if unit = ''PB'' then Some (1000 * 1000 * 1000 * 1000 * 1000)
      else if unit = ''EB'' then Some (1000 * 1000 * 1000 * 1000 * 1000 * 1000)
      else None)"

definition parseSizeString ::
  "(string \<Rightarrow> string + 'f) \<Rightarrow> ('f \<Rightarrow> int \<Rightarrow> int) \<Rightarrow> string \<Rightarrow> string + int" where
  "parseSizeString ParseFloat scale sizeStr =
     (case matchSize (ToUpper sizeStr) of
        None \<Rightarrow> Inl (''invalid size format: '' @ sizeStr)
      | Some (number, unit) \<Rightarrow>
          (case ParseFloat number of
             Inl err \<Rightarrow> Inl err
           | Inr val \<Rightarrow>
               (case unitMultiplier unit of
                  None \<Rightarrow> Inl (''unknown unit: '' @ unit)
                | Some multiplier \<Rightarrow> Inr (scale val multiplier))))"

text \<open>
  \<open>parseDockerDFOutput\<close>, lines 103-145: one step of the loop over the lines, and the
  loop. The map \<open>volumeSizes\<close> is only looked up, so it is a partial function.
\<close>

definition parseDockerDFLine ::
  "(string \<Rightarrow> string + 'f) \<Rightarrow> ('f \<Rightarrow> int \<Rightarrow> int) \<Rightarrow> string \<Rightarrow>
     (string \<rightharpoonup> volumeSize) \<Rightarrow> (string \<rightharpoonup> volumeSize)" where
  "parseDockerDFLine ParseFloat scale line0 volumeSizes =
     (let line = TrimSpace line0
      in if line = [] \<or> HasPrefix line ''VOLUME NAME'' \<or> Contains line ''Local Volumes''
         then volumeSizes
         else (let fields = Fields line
               in if length fields \<ge> 3
                  then (let volumeName = fields ! 0;
                            linksStr = fields ! 1;
                            sizeStr = fields ! (length fields - 1)
                        in case Atoi linksStr of
                             Inl err \<Rightarrow> volumeSizes
                           | Inr n \<Rightarrow>
                               (case parseSizeString ParseFloat scale sizeStr of
                                  Inl err \<Rightarrow> volumeSizes
                                | Inr b \<Rightarrow>
                                    volumeSizes(volumeName \<mapsto>
                                      \<lparr>bytes = b, human = sizeStr, links = n\<rparr>)))
                  else volumeSizes))"

definition parseDockerDFOutput ::
  "(string \<Rightarrow> string + 'f) \<Rightarrow> ('f \<Rightarrow> int \<Rightarrow> int) \<Rightarrow> string \<Rightarrow> (string \<rightharpoonup> volumeSize)" where
  "parseDockerDFOutput ParseFloat scale output =
     fold (parseDockerDFLine ParseFloat scale) (Split output [CHR 0x0A]) Map.empty"

text \<open>
  \<open>getVolumeSizesFromDockerDF\<close>, lines 89-101; \<open>df\<close> is what running the command
  gave, its error or its output.
\<close>

definition getVolumeSizesFromDockerDF ::
  "(string \<Rightarrow> string + 'f) \<Rightarrow> ('f \<Rightarrow> int \<Rightarrow> int) \<Rightarrow> string + string \<Rightarrow>
     string + (string \<rightharpoonup> volumeSize)" where
  "getVolumeSizesFromDockerDF ParseFloat scale df =
     (case df of
        Inl err \<Rightarrow> Inl (''failed to run docker system df -v: '' @ err)
      | Inr output \<Rightarrow> Inr (parseDockerDFOutput ParseFloat scale output))"

text \<open>
  \<open>LoadVolumes\<close>, lines 39-87: one step of the loop over the daemon's volumes, and the
  function. \<open>volumeSizes\<close> is \<open>None\<close> for Go's nil map (the command failed).
  \<open>result[volume.Name] = ...\<close> is \<open>AList.update\<close>.
\<close>

definition loadVolume ::
  "(string \<Rightarrow> int \<times> string) \<Rightarrow> (string \<rightharpoonup> volumeSize) option \<Rightarrow> Volume \<Rightarrow>
     DockerVolumeInfo gomap \<Rightarrow> DockerVolumeInfo gomap" where
  "loadVolume getVolumeSize volumeSizes volume result =
     (let df = (case volumeSizes of
                  None \<Rightarrow> \<lparr>bytes = 0, human = [], links = 0\<rparr>
                | Some m \<Rightarrow>
                    (case m (VolumeName volume) of
                       None \<Rightarrow> \<lparr>bytes = 0, human = [], links = 0\<rparr>
                     | Some dfSize \<Rightarrow> dfSize))
      in if links df > 0 then result
         else (let sized = (if bytes df = 0 then getVolumeSize (VolumeMountpoint volume)
                            else (bytes df, human df))
               in AList.update (VolumeName volume)
                    \<lparr>Name = VolumeName volume, Mountpoint = VolumeMountpoint volume,
                     Size = fst sized, SizeHuman = snd sized\<rparr>
                    result))"

definition LoadVolumes ::
  "(string \<Rightarrow> string + 'f) \<Rightarrow> ('f \<Rightarrow> int \<Rightarrow> int) \<Rightarrow> (string \<Rightarrow> int \<times> string) \<Rightarrow>
     string + Volume list \<Rightarrow> string + string \<Rightarrow> string + DockerVolumeInfo gomap" where
  "LoadVolumes ParseFloat scale getVolumeSize volumeList df =
     (case volumeList of
        Inl err \<Rightarrow> Inl (''failed to list Docker volumes: '' @ err)
      | Inr volumes \<Rightarrow>
          (let volumeSizes =
                 (case getVolumeSizesFromDockerDF ParseFloat scale df of
                    Inl err \<Rightarrow> None
                  | Inr m \<Rightarrow> Some m)
           in Inr (fold (loadVolume getVolumeSize volumeSizes) volumes [])))"

section \<open>The world outside the program\<close>

text \<open>
  The program talks to a console, to a clock and to the cluster through the
  \<open>kubectl\<close> command. The state of all three is the record \<open>world\<close>, passed through
  every function that has an effect and returned updated:
  \<^item> \<open>stdin\<close>: the characters the operator has typed and the program has not read yet
    (a terminal hands them over line by line);
  \<^item> \<open>stdout\<close>: everything printed so far;
  \<^item> \<open>clock\<close>: the time in milliseconds since the epoch;
  \<^item> \<open>trace\<close>: the commands run and the sleeps taken so far, oldest first.
\<close>

text \<open>
  The \<open>kubectl\<close> invocations of the engine. What is piped into
  \<open>kubectl apply -f -\<close> is the manifest, given by the values the program fills into its
  template.
\<close>

datatype manifest =
  PVCManifest string string string
| PodManifest string string string string

datatype call =
  Apply manifest
| GetPVCPhase string string
| GetPodPhase string string
| Logs string string
| DeletePod string string

text \<open>
  A finished command: what it wrote (\<open>Output\<close>/\<open>CombinedOutput\<close>), its error (a
  non-zero exit, a command that cannot be run) and the time it took in milliseconds.
\<close>

record cmdResult =
  cmdOutput :: string
  cmdErr :: "string option"
  cmdDuration :: nat

datatype event = Exec call cmdResult | Sleep nat

record world =
  stdin :: string
  stdout :: string
  clock :: nat
  trace :: "event list"

definition Printf :: "string \<Rightarrow> world \<Rightarrow> world" where
  "Printf s w = w\<lparr>stdout := stdout w @ s\<rparr>"

text \<open>
  \<open>bufio.Reader.ReadString(delim)\<close> on the console: the text up to and with the next
  \<open>delim\<close>, or the error \<open>EOF\<close> when the input ends before one (what was read until
  then is dropped by every caller).
\<close>

definition ReadString :: "char \<Rightarrow> world \<Rightarrow> (string + string) \<times> world" where
  "ReadString delim w =
     (if delim \<in> set (stdin w)
      then (Inr (takeWhile (\<lambda>c. c \<noteq> delim) (stdin w) @ [delim]),
            w\<lparr>stdin := tl (dropWhile (\<lambda>c. c \<noteq> delim) (stdin w))\<rparr>)
      else (Inl ''EOF'', w\<lparr>stdin := []\<rparr>))"

definition newline :: string where
  "newline = [CHR 0x0A]"

text \<open>The UTF-8 bytes of the signs the program prints.\<close>

definition rightArrow :: string where
  "rightArrow = [CHR 0xE2, CHR 0x86, CHR 0x92]"

definition checkMark :: string where
  "checkMark = [CHR 0xE2, CHR 0x9C, CHR 0x85]"

definition crossMark :: string where
  "crossMark = [CHR 0xE2, CHR 0x9D, CHR 0x8C]"

definition partyPopper :: string where
  "partyPopper = [CHR 0xF0, CHR 0x9F, CHR 0x8E, CHR 0x89]"

definition warningSign :: string where
  "warningSign = [CHR 0xE2, CHR 0x9A, CHR 0xA0, CHR 0xEF, CHR 0xB8, CHR 0x8F]"

section \<open>The matcher's prompt (internal/matcher/volume_matcher.go)\<close>

text \<open>
  \<open>interactiveVolumeSelection\<close>, lines 260-297. Its \<open>for\<close> loop has no exit but the
  two \<open>return\<close>s, and a failed read only prints and reads again: at the end of the
  input the loop never ends. The loop is a partial function, \<open>None\<close> when it does not
  return.
\<close>

partial_function (option) selectionLoop ::
  "DockerVolumeInfo list \<Rightarrow> world \<Rightarrow> (DockerVolumeInfo option \<times> world) option" where
  "selectionLoop candidates w =
     (case ReadString (CHR 0x0A) (Printf ''Enter choice: '' w) of
        (Inl e, w1) \<Rightarrow>
          selectionLoop candidates (Printf (''Error reading input: '' @ e @ newline) w1)
      | (Inr input, w1) \<Rightarrow>
          (case Atoi (TrimSpace input) of
             Inl e \<Rightarrow>
               selectionLoop candidates (Printf (''Please enter a valid number'' @ newline) w1)
           | Inr choice \<Rightarrow>
               if choice = 0 then Some (None, w1)
               else if choice \<ge> 1 \<and> choice \<le> int (length candidates)
               then (let selected = candidates ! nat (choice - 1)
                     in Some (Some selected,
                              Printf (''Selected: '' @ Name selected @ newline) w1))
               else selectionLoop candidates
                      (Printf (''Invalid choice. Please enter 0-'' @ itoa (length candidates)
                         @ newline) w1)))"

definition printCandidates :: "DockerVolumeInfo list \<Rightarrow> world \<Rightarrow> world" where
  "printCandidates candidates w =
     fold (\<lambda>(i, volume).
          Printf (itoa (i + 1) @ ''. '' @ Name volume @ '' ('' @ SizeHuman volume @ '')'' @ newline))
       (enumerate 0 candidates) w"

definition interactiveVolumeSelection ::
  "PVCInfo \<Rightarrow> DockerVolumeInfo list \<Rightarrow> world \<Rightarrow> (DockerVolumeInfo option \<times> world) option" where
  "interactiveVolumeSelection pvc candidates w =
     selectionLoop candidates
       (printCandidates candidates
          (Printf (''0. Skip (no volume)'' @ newline)
             (Printf (newline @ ''Select Docker volume for PVC '' @ [CHR 0x27] @ PVCName pvc
                @ [CHR 0x27] @ '':'' @ newline) w)))"

text \<open>
  \<open>MatchVolumes\<close>, lines 56-72: each PVC in turn gets the volume the operator picks,
  from the candidates found by name or, when there is none, from all volumes.
\<close>

fun MatchVolumes ::
  "DockerVolumeInfo gomap \<Rightarrow> PVCInfo list \<Rightarrow> world \<Rightarrow> (PVCInfo list \<times> world) option" where
  "MatchVolumes dockerVolumes [] w = Some ([], w)"
| "MatchVolumes dockerVolumes (pvc # pvcs) w =
     (let w1 = Printf (newline @ ''--- Matching PVC: '' @ PVCName pvc @ '' ---'' @ newline) w;
          candidates = findVolumesContainingPVCName dockerVolumes pvc;
          picked =
            (if length candidates = 0
             then interactiveVolumeSelection pvc (getAllDockerVolumes dockerVolumes)
                    (Printf (''No Docker volumes found containing '' @ [CHR 0x27] @ PVCName pvc
                       @ [CHR 0x27] @ newline) w1)
             else interactiveVolumeSelection pvc candidates w1)
      in case picked of
           None \<Rightarrow> None
         | Some (selected, w2) \<Rightarrow>
             (case MatchVolumes dockerVolumes pvcs w2 of
                None \<Rightarrow> None
              | Some (rest, w3) \<Rightarrow> Some (pvc\<lparr>MatchedVolume := selected\<rparr> # rest, w3)))"

text \<open>
  Words for what is proved about the prompt: a line of input, ended by its only line
  feed, and a line that the prompt over \<open>n\<close> candidates accepts.
\<close>

definition isLine :: "string \<Rightarrow> bool" where
  "isLine l = (l \<noteq> [] \<and> last l = CHR 0x0A \<and> CHR 0x0A \<notin> set (butlast l))"

definition accepted :: "nat \<Rightarrow> string \<Rightarrow> bool" where
  "accepted n l =
     (case Atoi (TrimSpace l) of
        Inl e \<Rightarrow> False
      | Inr choice \<Rightarrow> choice = 0 \<or> (1 \<le> choice \<and> choice \<le> int n))"

section \<open>The size prompt (package ui)\<close>

text \<open>
  \<open>isValidSize\<close>, lines 66-69 of the file of package \<open>ui\<close>. Kubernetes'
  \<open>resource.ParseQuantity\<close> is the parameter \<open>ParseQuantity\<close>.
\<close>

definition isValidSize :: "(string \<Rightarrow> string + 'q) \<Rightarrow> string \<Rightarrow> bool" where
  "isValidSize ParseQuantity sizeStr =
     (case ParseQuantity sizeStr of Inl e \<Rightarrow> False | Inr q \<Rightarrow> True)"

text \<open>
  \<open>InteractiveSetSizes\<close>, lines 23-64. The PVCs are changed in place; the model returns
  them with the result: all of them, changed up to where the function returned.
\<close>

definition printPVC :: "PVCInfo \<Rightarrow> world \<Rightarrow> world" where
  "printPVC pvc w =
     (let w1 = Printf (''PVC: '' @ PVCName pvc @ '' (namespace: '' @ Namespace pvc @ '')'' @ newline) w;
          w2 = Printf (''  Kompose suggested size: '' @ RequestedSize pvc @ newline) w1;
          w3 = (case MatchedVolume pvc of
                  Some volume \<Rightarrow>
                    Printf (''  Volume path: '' @ Mountpoint volume @ newline)
                      (Printf (''  Current volume size: '' @ SizeHuman volume @ newline)
                         (Printf (''  Matched Docker volume: '' @ Name volume @ newline) w2))
                | None \<Rightarrow>
                    Printf (''  '' @ warningSign @ ''  No matching Docker volume found!'' @ newline) w2)
      in Printf ''  Enter desired PVC size (or press Enter to use suggested): '' w3)"

fun setSizes ::
  "(string \<Rightarrow> string + 'q) \<Rightarrow> PVCInfo list \<Rightarrow> world \<Rightarrow> (string + unit) \<times> PVCInfo list \<times> world" where
  "setSizes ParseQuantity [] w = (Inr (), [], w)"
| "setSizes ParseQuantity (pvc # pvcs) w =
     (case ReadString (CHR 0x0A) (printPVC pvc w) of
        (Inl e, w1) \<Rightarrow> (Inl (''failed to read input: '' @ e), pvc # pvcs, w1)
      | (Inr line, w1) \<Rightarrow>
          (let input = TrimSpace line;
               sized =
                 (if input = [] then (pvc\<lparr>NewSize := RequestedSize pvc\<rparr>, w1)
                  else if isValidSize ParseQuantity input then (pvc\<lparr>NewSize := input\<rparr>, w1)
                  else (pvc\<lparr>NewSize := RequestedSize pvc\<rparr>,
                        Printf (''  '' @ warningSign @ ''  Invalid size format, using suggested: ''
                          @ RequestedSize pvc @ newline) w1));
               w2 = Printf newline
                      (Printf (''  '' @ checkMark @ '' Set PVC size to: '' @ NewSize (fst sized)
                         @ newline) (snd sized))
           in case setSizes ParseQuantity pvcs w2 of
                (res, pvcs', w3) \<Rightarrow> (res, fst sized # pvcs', w3)))"

definition InteractiveSetSizes ::
  "(string \<Rightarrow> string + 'q) \<Rightarrow> PVCInfo list \<Rightarrow> world \<Rightarrow> (string + unit) \<times> PVCInfo list \<times> world" where
  "InteractiveSetSizes ParseQuantity pvcs w =
     setSizes ParseQuantity pvcs
       (Printf newline
          (Printf (''Use formats like: 1Gi, 500Mi, 2Ti, etc.'' @ newline)
             (Printf (''For each PVC, review the matched Docker volume and set the desired size.''
                @ newline)
                (Printf (newline @ ''=== PVC Size Configuration ==='' @ newline) w))))"

text \<open>
  The size the claim describes for one PVC, from the suggested size and the line the
  operator typed.
\<close>

definition resolvedSize :: "(string \<Rightarrow> string + 'q) \<Rightarrow> string \<Rightarrow> string \<Rightarrow> string" where
  "resolvedSize ParseQuantity requested line =
     (if TrimSpace line = [] then requested
      else if isValidSize ParseQuantity (TrimSpace line) then TrimSpace line
      else requested)"

section \<open>The migration engine (internal/migration/engine.go)\<close>

text \<open>
  The file holds two texts of package \<open>migration\<close>. The functions below are those of
  the second one (lines 460-739, the engine that \<open>main.go\<close> constructs with
  \<open>NewEngine(*namespace)\<close>); its methods never read the receiver, so the model has no
  argument for it. Of the first text (lines 1-459) the function \<open>waitForPVCBound\<close>
  is modelled as well, as \<open>waitForPVCBound_152\<close>, because it differs in what it does
  with the phase \<open>Failed\<close>.

  The cluster is the parameter \<open>kubectl\<close>: what a command returns, given everything
  that was run before it. Running a command takes the time its result says; the clock
  only moves by that and by \<open>time.Sleep\<close>. A context with a deadline is done when the
  clock has reached the deadline.
\<close>

type_synonym cluster = "event list \<Rightarrow> call \<Rightarrow> cmdResult"

definition run :: "cluster \<Rightarrow> call \<Rightarrow> world \<Rightarrow> cmdResult \<times> world" where
  "run kubectl c w =
     (let r = kubectl (trace w) c
      in (r, w\<lparr>clock := clock w + cmdDuration r, trace := trace w @ [Exec c r]\<rparr>))"

definition sleep :: "nat \<Rightarrow> world \<Rightarrow> world" where
  "sleep d w = w\<lparr>clock := clock w + d, trace := trace w @ [Sleep d]\<rparr>"

definition second :: nat where
  "second = 1000"

definition minute :: nat where
  "minute = 60 * second"

lemma clock_run: "clock (snd (run kubectl c w)) = clock w + cmdDuration (fst (run kubectl c w))"
  by (simp add: run_def Let_def)

lemma clock_sleep: "clock (sleep d w) = clock w + d"
  by (simp add: sleep_def)

lemma clock_Printf: "clock (Printf s w) = clock w"
  by (simp add: Printf_def)

text \<open>\<open>createPVC\<close>, lines 528-557.\<close>

definition createPVC :: "cluster \<Rightarrow> PVCInfo \<Rightarrow> world \<Rightarrow> (string + unit) \<times> world" where
  "createPVC kubectl pvc w =
     (case run kubectl (Apply (PVCManifest (PVCName pvc) (Namespace pvc) (NewSize pvc))) w of
        (r, w1) \<Rightarrow>
          (case cmdErr r of
             Some e \<Rightarrow>
               (Inl (''kubectl apply failed: '' @ e @ newline @ ''Output: '' @ cmdOutput r), w1)
           | None \<Rightarrow> (Inr (), w1)))"

text \<open>
  \<open>waitForPVCBound\<close>, lines 559-587: the loop, from the deadline
  \<open>ctx\<close> was made with, and the function.
\<close>

function pvcBoundLoop :: "cluster \<Rightarrow> PVCInfo \<Rightarrow> nat \<Rightarrow> world \<Rightarrow> (string + unit) \<times> world" where
  "pvcBoundLoop kubectl pvc deadline w =
     (if deadline \<le> clock w
      then (Inl (''timeout waiting for PVC '' @ PVCName pvc @ '' to be bound''), w)
      else (case run kubectl (GetPVCPhase (PVCName pvc) (Namespace pvc)) w of
              (r, w1) \<Rightarrow>
                (case cmdErr r of
                   Some e \<Rightarrow> pvcBoundLoop kubectl pvc deadline (sleep (5 * second) w1)
                 | None \<Rightarrow>
                     (let phase = TrimSpace (cmdOutput r)
                      in if phase = ''Bound'' then (Inr (), w1)
                         else pvcBoundLoop kubectl pvc deadline
                                (sleep (5 * second)
                                   (Printf (''    PVC status: '' @ phase @ newline) w1))))))"
  by pat_completeness auto
termination
  by (relation "measure (\<lambda>(kubectl, pvc, deadline, w). deadline - clock w)")
    (auto simp: run_def sleep_def Printf_def second_def Let_def)

declare pvcBoundLoop.simps [simp del]

definition waitForPVCBound :: "cluster \<Rightarrow> PVCInfo \<Rightarrow> world \<Rightarrow> (string + unit) \<times> world" where
  "waitForPVCBound kubectl pvc w = pvcBoundLoop kubectl pvc (clock w + 5 * minute) w"

text \<open>
  \<open>waitForPVCBound\<close> of the first text, lines 152-188, whose engine has the fields
  \<open>migrationNamespace\<close> and \<open>yamlDirectory\<close>.
\<close>

record Engine_152 =
  migrationNamespace :: string
  yamlDirectory :: string

function pvcBoundLoop_152 ::
  "cluster \<Rightarrow> Engine_152 \<Rightarrow> PVCInfo \<Rightarrow> nat \<Rightarrow> world \<Rightarrow> (string + unit) \<times> world" where
  "pvcBoundLoop_152 kubectl e pvc deadline w =
     (if deadline \<le> clock w
      then (Inl (''timeout waiting for PVC '' @ PVCName pvc @ '' to be bound''), w)
      else (case run kubectl (GetPVCPhase (PVCName pvc) (migrationNamespace e)) w of
              (r, w1) \<Rightarrow>
                (case cmdErr r of
                   Some er \<Rightarrow>
                     pvcBoundLoop_152 kubectl e pvc deadline
                       (sleep (5 * second)
                          (Printf (''    Error checking PVC status: '' @ er @ newline) w1))
                 | None \<Rightarrow>
                     (let phase = TrimSpace (cmdOutput r);
                          w2 = Printf (''    PVC status: '' @ phase @ newline) w1
                      in if phase = ''Bound''
                         then (Inr (),
                               Printf (''    '' @ checkMark @ '' PVC is now bound!'' @ newline) w2)
                         else if phase = ''Failed'' then (Inl ''PVC failed to bind'', w2)
                         else pvcBoundLoop_152 kubectl e pvc deadline (sleep (5 * second) w2)))))"
  by pat_completeness auto
termination
  by (relation "measure (\<lambda>(kubectl, e, pvc, deadline, w). deadline - clock w)")
    (auto simp: run_def sleep_def Printf_def second_def Let_def)

declare pvcBoundLoop_152.simps [simp del]

definition waitForPVCBound_152 ::
  "cluster \<Rightarrow> Engine_152 \<Rightarrow> PVCInfo \<Rightarrow> world \<Rightarrow> (string + unit) \<times> world" where
  "waitForPVCBound_152 kubectl e pvc w =
     pvcBoundLoop_152 kubectl e pvc (clock w + 5 * minute) w"

text \<open>\<open>waitForPodCompletion\<close>, lines 666-697.\<close>

function podLoop :: "cluster \<Rightarrow> string \<Rightarrow> string \<Rightarrow> nat \<Rightarrow> world \<Rightarrow> (string + unit) \<times> world" where
  "podLoop kubectl podName ns deadline w =
     (if deadline \<le> clock w
      then (Inl (''timeout waiting for pod '' @ podName @ '' to complete''), w)
      else (case run kubectl (GetPodPhase podName ns) w of
              (r, w1) \<Rightarrow>
                (case cmdErr r of
                   Some e \<Rightarrow> podLoop kubectl podName ns deadline (sleep (5 * second) w1)
                 | None \<Rightarrow>
                     (let phase = TrimSpace (cmdOutput r)
                      in if phase = ''Succeeded'' then (Inr (), w1)
                         else if phase = ''Failed'' then (Inl ''migration pod failed'', w1)
                         else podLoop kubectl podName ns deadline
                                (sleep (5 * second)
                                   (Printf (''    Pod status: '' @ phase @ newline) w1))))))"
  by pat_completeness auto
termination
  by (relation "measure (\<lambda>(kubectl, podName, ns, deadline, w). deadline - clock w)")
    (auto simp: run_def sleep_def Printf_def second_def Let_def)

declare podLoop.simps [simp del]

definition waitForPodCompletion ::
  "cluster \<Rightarrow> string \<Rightarrow> string \<Rightarrow> world \<Rightarrow> (string + unit) \<times> world" where
  "waitForPodCompletion kubectl podName ns w =
     podLoop kubectl podName ns (clock w + 10 * minute) w"

text \<open>\<open>showPodLogs\<close>, lines 699-714, and \<open>deletePod\<close>, lines 716-720.\<close>

definition showPodLogs :: "cluster \<Rightarrow> string \<Rightarrow> string \<Rightarrow> world \<Rightarrow> (string + unit) \<times> world" where
  "showPodLogs kubectl podName ns w =
     (case run kubectl (Logs podName ns) w of
        (r, w1) \<Rightarrow>
          (case cmdErr r of
             Some e \<Rightarrow> (Inl e, w1)
           | None \<Rightarrow>
               (Inr (),
                fold (\<lambda>line. if TrimSpace line \<noteq> [] then Printf (''    '' @ line @ newline)
                               else (\<lambda>w. w))
                  (Split (cmdOutput r) newline) w1)))"

definition deletePod :: "cluster \<Rightarrow> string \<Rightarrow> string \<Rightarrow> world \<Rightarrow> (string + unit) \<times> world" where
  "deletePod kubectl podName ns w =
     (case run kubectl (DeletePod podName ns) w of
        (r, w1) \<Rightarrow> (case cmdErr r of Some e \<Rightarrow> (Inl e, w1) | None \<Rightarrow> (Inr (), w1)))"

text \<open>
  \<open>copyData\<close>, lines 589-664. \<open>pvc.MatchedVolume\<close> is dereferenced: with a nil
  pointer Go panics, which is the result \<open>nilPanic\<close> here; the only caller,
  \<open>migratePVC\<close> under \<open>StartMigration\<close>, has a volume.
\<close>

definition nilPanic :: string where
  "nilPanic = ''panic: runtime error: invalid memory address or nil pointer dereference''"

definition copyData :: "cluster \<Rightarrow> PVCInfo \<Rightarrow> world \<Rightarrow> (string + unit) \<times> world" where
  "copyData kubectl pvc w =
     (case MatchedVolume pvc of
        None \<Rightarrow> (Inl nilPanic, w)
      | Some volume \<Rightarrow>
          (let podName = ''migration-'' @ PVCName pvc @ ''-'' @ itoa (clock w div 1000)
           in case run kubectl
                     (Apply (PodManifest podName (Namespace pvc) (Mountpoint volume) (PVCName pvc))) w of
                (r, w1) \<Rightarrow>
                  (case cmdErr r of
                     Some e \<Rightarrow>
                       (Inl (''failed to create migration pod: '' @ e @ newline @ ''Output: ''
                          @ cmdOutput r), w1)
                   | None \<Rightarrow>
                       (case waitForPodCompletion kubectl podName (Namespace pvc)
                               (Printf (''  Waiting for migration pod to complete...'' @ newline) w1) of
                          (Inl e, w2) \<Rightarrow> (Inl (''migration pod failed: '' @ e), w2)
                        | (Inr u, w2) \<Rightarrow>
                            (let w3 = (case showPodLogs kubectl podName (Namespace pvc)
                                              (Printf (''  Migration pod logs:'' @ newline) w2) of
                                         (Inl e, w') \<Rightarrow>
                                           Printf (''    Warning: Could not retrieve pod logs: ''
                                             @ e @ newline) w'
                                       | (Inr u', w') \<Rightarrow> w');
                                 w4 = (case deletePod kubectl podName (Namespace pvc) w3 of
                                         (Inl e, w') \<Rightarrow>
                                           Printf (''    Warning: Could not delete migration pod: ''
                                             @ e @ newline) w'
                                       | (Inr u', w') \<Rightarrow> w')
                             in (Inr (), w4))))))"

text \<open>\<open>migratePVC\<close>, lines 506-526.\<close>

definition migratePVC :: "cluster \<Rightarrow> PVCInfo \<Rightarrow> world \<Rightarrow> (string + unit) \<times> world" where
  "migratePVC kubectl pvc w =
     (case createPVC kubectl pvc (Printf (''  Creating PVC '' @ PVCName pvc @ ''...'' @ newline) w) of
        (Inl e, w1) \<Rightarrow> (Inl (''failed to create PVC: '' @ e), w1)
      | (Inr u, w1) \<Rightarrow>
          (case waitForPVCBound kubectl pvc
                  (Printf (''  Waiting for PVC to be bound...'' @ newline) w1) of
             (Inl e, w2) \<Rightarrow> (Inl (''PVC not bound: '' @ e), w2)
           | (Inr u', w2) \<Rightarrow>
               (case MatchedVolume pvc of
                  None \<Rightarrow> (Inl nilPanic, w2)
                | Some volume \<Rightarrow>
                    (case copyData kubectl pvc
                            (Printf (''  Copying data from Docker volume '' @ Name volume @ ''...''
                               @ newline) w2) of
                       (Inl e, w3) \<Rightarrow> (Inl (''failed to copy data: '' @ e), w3)
                     | (Inr u'', w3) \<Rightarrow> (Inr (), w3)))))"

text \<open>
  \<open>StartMigration\<close>, lines 483-504: the loop over the PVCs from index \<open>i\<close> on, of
  \<open>n\<close> in all, and the function.
\<close>

fun migrateFrom :: "cluster \<Rightarrow> nat \<Rightarrow> nat \<Rightarrow> PVCInfo list \<Rightarrow> world \<Rightarrow> (string + unit) \<times> world" where
  "migrateFrom kubectl i n [] w = (Inr (), w)"
| "migrateFrom kubectl i n (pvc # pvcs) w =
     (if MatchedVolume pvc = None
      then migrateFrom kubectl (i + 1) n pvcs
             (Printf (''Skipping '' @ PVCName pvc @ '' (no volume selected)'' @ newline) w)
      else (case migratePVC kubectl pvc
                   (Printf (newline @ ''['' @ itoa (i + 1) @ ''/'' @ itoa n @ ''] Migrating PVC: ''
                      @ PVCName pvc @ newline) w) of
              (Inl e, w1) \<Rightarrow>
                (Inl (''migration failed for PVC '' @ PVCName pvc @ '': '' @ e),
                 Printf (crossMark @ '' Failed to migrate '' @ PVCName pvc @ '': '' @ e @ newline) w1)
            | (Inr u, w1) \<Rightarrow>
                migrateFrom kubectl (i + 1) n pvcs
                  (Printf (checkMark @ '' Successfully migrated '' @ PVCName pvc @ newline) w1)))"

definition StartMigration :: "cluster \<Rightarrow> PVCInfo list \<Rightarrow> world \<Rightarrow> (string + unit) \<times> world" where
  "StartMigration kubectl pvcs w =
     (case migrateFrom kubectl 0 (length pvcs) pvcs
             (Printf (newline @ ''=== Starting Migration Process ==='' @ newline) w) of
        (Inl e, w1) \<Rightarrow> (Inl e, w1)
      | (Inr u, w1) \<Rightarrow>
          (Inr (),
           Printf (newline @ partyPopper @ '' Migration completed successfully!'' @ newline) w1))"

text \<open>\<open>DryRun\<close>, lines 722-739.\<close>

fun dryRunFrom :: "nat \<Rightarrow> PVCInfo list \<Rightarrow> world \<Rightarrow> world" where
  "dryRunFrom i [] w = w"
| "dryRunFrom i (pvc # pvcs) w =
     (case MatchedVolume pvc of
        None \<Rightarrow>
          dryRunFrom (i + 1) pvcs
            (Printf (''['' @ itoa (i + 1) @ ''] SKIP: '' @ PVCName pvc @ '' (no volume selected)''
               @ newline) w)
      | Some volume \<Rightarrow>
          dryRunFrom (i + 1) pvcs
            (Printf newline
               (Printf (''    Path: '' @ Mountpoint volume @ '' '' @ rightArrow @ '' PVC mount''
                  @ newline)
                  (Printf (''    Target: PVC '' @ Namespace pvc @ ''/'' @ PVCName pvc @ '' (''
                     @ NewSize pvc @ '')'' @ newline)
                     (Printf (''    Source: '' @ Name volume @ '' ('' @ SizeHuman volume @ '')''
                        @ newline)
                        (Printf (''['' @ itoa (i + 1) @ ''] MIGRATE: '' @ PVCName pvc @ newline)
                           w))))))"

definition DryRun :: "PVCInfo list \<Rightarrow> world \<Rightarrow> world" where
  "DryRun pvcs w =
     Printf (''Use --execute to run the actual migration'' @ newline)
       (dryRunFrom 0 pvcs (Printf (newline @ ''=== Dry Run - Migration Plan ==='' @ newline) w))"

text \<open>
  Words for what is proved about the waits: the phase a command reported (none when the
  command failed), an event that is a poll reporting a given phase, the number of
  commands among some events, and events that are polls by one command with a sleep of
  five seconds between each poll and the next.
\<close>

definition phaseOf :: "cmdResult \<Rightarrow> string option" where
  "phaseOf r = (case cmdErr r of Some e \<Rightarrow> None | None \<Rightarrow> Some (TrimSpace (cmdOutput r)))"

fun reports :: "string \<Rightarrow> event \<Rightarrow> bool" where
  "reports phase (Exec c r) = (phaseOf r = Some phase)"
| "reports phase (Sleep d) = False"

fun isExec :: "event \<Rightarrow> bool" where
  "isExec (Exec c r) = True"
| "isExec (Sleep d) = False"

definition polls :: "event list \<Rightarrow> nat" where
  "polls evs = length (filter isExec evs)"

fun pollTrace :: "call \<Rightarrow> event list \<Rightarrow> bool" where
  "pollTrace c [] = True"
| "pollTrace c [Exec c' r] = (c' = c)"
| "pollTrace c (Exec c' r # Sleep d # evs) = (c' = c \<and> d = 5000 \<and> pollTrace c evs)"
| "pollTrace c evs = False"

text \<open>A poll of a worker pod that reported the phase \<open>Failed\<close>.\<close>

fun podFailed :: "event \<Rightarrow> bool" where
  "podFailed (Exec (GetPodPhase podName ns) r) = (phaseOf r = Some ''Failed'')"
| "podFailed ev = False"

text \<open>
  Between the worlds \<open>w\<close> and \<open>w'\<close> the trace only grew, and no worker pod was seen
  failed.
\<close>

definition quiet :: "world \<Rightarrow> world \<Rightarrow> bool" where
  "quiet w w' =
     (prefix (trace w) (trace w') \<and>
      \<not> list_ex podFailed (drop (length (trace w)) (trace w')))"

text \<open>
  Between the worlds \<open>w\<close> and \<open>w'\<close> the trace only grew, and the last thing that
  happened is that the worker pod of \<open>pvc\<close> was seen failed, for the first time.
\<close>

definition podFailedLast :: "PVCInfo \<Rightarrow> world \<Rightarrow> world \<Rightarrow> bool" where
  "podFailedLast pvc w w' =
     (prefix (trace w) (trace w') \<and>
      (case rev (drop (length (trace w)) (trace w')) of
         Exec (GetPodPhase podName ns) r # before \<Rightarrow>
           prefix (''migration-'' @ PVCName pvc @ ''-'') podName \<and> ns = Namespace pvc \<and>
           phaseOf r = Some ''Failed'' \<and> \<not> list_ex podFailed before
       | _ \<Rightarrow> False))"

text \<open>Two worlds that differ at most in what has been printed.\<close>

definition sameButOutput :: "world \<Rightarrow> world \<Rightarrow> bool" where
  "sameButOutput w v = (stdin w = stdin v \<and> clock w = clock v \<and> trace w = trace v)"

section \<open>Example inputs\<close>

definition exampleDF :: string where
  "exampleDF =
     ''Local Volumes space usage:'' @ [CHR 0x0A] @ [CHR 0x0A] @
     ''VOLUME NAME    LINKS     SIZE'' @ [CHR 0x0A] @
     ''app_data       0         500MB'' @ [CHR 0x0A] @
     ''db_data        2         1.2GB'' @ [CHR 0x0A]"

definition exampleParseFloat :: "string \<Rightarrow> string + int" where
  "exampleParseFloat number = Inr (decimal (takeWhile isDigit number))"

definition exampleDaemonVolumes :: "Volume list" where
  "exampleDaemonVolumes =
     [\<lparr>VolumeName = ''app_data'', VolumeMountpoint = ''/var/lib/docker/volumes/app_data/_data''\<rparr>,
      \<lparr>VolumeName = ''db_data'', VolumeMountpoint = ''/var/lib/docker/volumes/db_data/_data''\<rparr>]"

definition exampleAppData :: DockerVolumeInfo where
  "exampleAppData =
     \<lparr>Name = ''app_data'', Mountpoint = ''/var/lib/docker/volumes/app_data/_data'',
      Size = 500000000, SizeHuman = ''500MB''\<rparr>"

definition examplePVC :: PVCInfo where
  "examplePVC =
     \<lparr>PVCName = ''svc-app-data'', Namespace = ''default'', RequestedSize = ''1Gi'',
      MatchedVolume = None, NewSize = []\<rparr>"

definition exampleBusyDF :: string where
  "exampleBusyDF = exampleDF @ ''busy           2         -1B'' @ [CHR 0x0A]"

definition exampleBusyVolumes :: "Volume list" where
  "exampleBusyVolumes =
     exampleDaemonVolumes @
     [\<lparr>VolumeName = ''busy'', VolumeMountpoint = ''/var/lib/docker/volumes/busy/_data''\<rparr>]"

definition exampleBusy :: DockerVolumeInfo where
  "exampleBusy =
     \<lparr>Name = ''busy'', Mountpoint = ''/var/lib/docker/volumes/busy/_data'',
      Size = 0, SizeHuman = ''0 B''\<rparr>"

definition exampleBusyPVC :: PVCInfo where
  "exampleBusyPVC =
     \<lparr>PVCName = ''svc-busy'', Namespace = ''default'', RequestedSize = ''1Gi'',
      MatchedVolume = None, NewSize = []\<rparr>"

definition exampleDbData :: DockerVolumeInfo where
  "exampleDbData =
     \<lparr>Name = ''db_data'', Mountpoint = ''/var/lib/docker/volumes/db_data/_data'',
      Size = 1200000000, SizeHuman = ''1.2GB''\<rparr>"

definition exampleConsole :: world where
  "exampleConsole =
     \<lparr>stdin = ''abc'' @ newline @ ''7'' @ newline @ '' 2 '' @ newline @ ''1Gi'' @ newline,
      stdout = [], clock = 0, trace = []\<rparr>"

definition exampleParseQuantity :: "string \<Rightarrow> string + unit" where
  "exampleParseQuantity s =
     (if s \<in> set [''1Gi'', ''2Gi'', ''500Mi'', ''2Ti''] then Inr ()
      else Inl ''quantities must match the regular expression'')"

definition examplePVCs :: "PVCInfo list" where
  "examplePVCs =
     [\<lparr>PVCName = ''svc-app-data'', Namespace = ''default'', RequestedSize = ''1Gi'',
       MatchedVolume = Some exampleAppData, NewSize = []\<rparr>,
      \<lparr>PVCName = ''svc-db-data'', Namespace = ''default'', RequestedSize = ''5Gi'',
       MatchedVolume = None, NewSize = []\<rparr>,
      \<lparr>PVCName = ''svc-cache'', Namespace = ''default'', RequestedSize = ''100Mi'',
       MatchedVolume = None, NewSize = []\<rparr>]"

definition exampleSizeLines :: "string list" where
  "exampleSizeLines = [newline, '' 2Gi'' @ newline, ''lots'' @ newline]"

definition exampleVolumes :: "DockerVolumeInfo gomap" where
  "exampleVolumes =
     [(''database'',
       \<lparr>Name = ''database'', Mountpoint = ''/var/lib/docker/volumes/database/_data'',
        Size = 20, SizeHuman = ''20B''\<rparr>),
      (''proj_data'',
       \<lparr>Name = ''proj_data'', Mountpoint = ''/var/lib/docker/volumes/proj_data/_data'',
        Size = 10, SizeHuman = ''10B''\<rparr>)]"

definition exampleStart :: world where
  "exampleStart = \<lparr>stdin = [], stdout = [], clock = 0, trace = []\<rparr>"

definition exampleEngine :: Engine_152 where
  "exampleEngine = \<lparr>migrationNamespace = ''default'', yamlDirectory = ''k8s''\<rparr>"

text \<open>
  A cluster that reports the claim's phase as \<open>Pending\<close> twice and then as
  \<open>Bound\<close>, and one that reports \<open>Failed\<close> to every poll at once.
\<close>

definition examplePendingThenBound :: cluster where
  "examplePendingThenBound tr c =
     (case c of
        GetPVCPhase name ns \<Rightarrow>
          \<lparr>cmdOutput = (if polls tr < 2 then ''Pending'' else ''Bound''), cmdErr = None,
           cmdDuration = 200\<rparr>
      | _ \<Rightarrow> \<lparr>cmdOutput = [], cmdErr = None, cmdDuration = 100\<rparr>)"

definition exampleAlwaysFailed :: cluster where
  "exampleAlwaysFailed tr c = \<lparr>cmdOutput = ''Failed'', cmdErr = None, cmdDuration = 0\<rparr>"

definition examplePodFails :: cluster where
  "examplePodFails tr c =
     (case c of
        Apply m \<Rightarrow> \<lparr>cmdOutput = ''configured'', cmdErr = None, cmdDuration = 300\<rparr>
      | GetPVCPhase name ns \<Rightarrow> \<lparr>cmdOutput = ''Bound'', cmdErr = None, cmdDuration = 200\<rparr>
      | GetPodPhase podName ns \<Rightarrow>
          \<lparr>cmdOutput = (if polls tr < 4 then ''Running'' else ''Failed''), cmdErr = None,
           cmdDuration = 200\<rparr>
      | _ \<Rightarrow> \<lparr>cmdOutput = [], cmdErr = None, cmdDuration = 100\<rparr>)"

definition exampleUnmatched :: PVCInfo where
  "exampleUnmatched =
     \<lparr>PVCName = ''svc-db-data'', Namespace = ''default'', RequestedSize = ''5Gi'',
      MatchedVolume = None, NewSize = ''5Gi''\<rparr>"

definition exampleMatched :: PVCInfo where
  "exampleMatched =
     \<lparr>PVCName = ''svc-app-data'', Namespace = ''default'', RequestedSize = ''1Gi'',
      MatchedVolume = Some exampleAppData, NewSize = ''1Gi''\<rparr>"

section \<open>Properties of the matcher\<close>

text \<open>
  Claim C4. For a PVC name that contains a hyphen, \<open>extractPVCParts\<close> drops exactly
  the first hyphen-delimited segment: the name is \<open>seg-clean\<close> with no hyphen in
  \<open>seg\<close>, the cleaned name \<open>clean\<close> is the remaining segments joined with hyphens,
  and the parts are the pieces of \<open>clean\<close> split at \<open>-\<close>, then those split at \<open>_\<close>,
  each longer than one character and in lower case, followed by \<open>clean\<close> in lower
  case.
\<close>

theorem extractPVCParts_drops_first_segment:
  assumes "Contains pvcName ''-''"
  shows "\<exists>seg clean.
           pvcName = seg @ ''-'' @ clean \<and> CHR ''-'' \<notin> set seg \<and>
           Split pvcName ''-'' = seg # Split clean ''-'' \<and>
           clean = Join (tl (Split pvcName ''-'')) ''-'' \<and>
           extractPVCParts pvcName =
             map ToLower (filter (\<lambda>part. 1 < length part) (Split clean ''-'')) @
             map ToLower (filter (\<lambda>part. 1 < length part) (Split clean ''_'')) @
             [ToLower clean]"
proof -
  define seg where "seg = takeWhile (\<lambda>x. x \<noteq> CHR ''-'') pvcName"
  define clean where "clean = tl (dropWhile (\<lambda>x. x \<noteq> CHR ''-'') pvcName)"
  from assms have mem: "CHR ''-'' \<in> set pvcName"
    by (simp add: Contains_single)
  have decomp: "pvcName = seg @ ''-'' @ clean"
    unfolding seg_def clean_def using takeWhile_dropWhile_single [OF mem] by simp
  have seg: "CHR ''-'' \<notin> set seg"
    unfolding seg_def by (auto dest: set_takeWhileD)
  have split: "Split pvcName ''-'' = seg # Split clean ''-''"
    unfolding seg_def clean_def by (rule Split_single_in [OF mem])
  have join: "Join (tl (Split pvcName ''-'')) ''-'' = clean"
    by (simp add: split Join_Split)
  have len: "1 < length (Split pvcName ''-'')"
    using Split_not_Nil [of "''-''" clean] by (cases "Split clean ''-''") (auto simp: split)
  have parts: "extractPVCParts pvcName =
      map ToLower (filter (\<lambda>part. 1 < length part) (Split clean ''-'')) @
      map ToLower (filter (\<lambda>part. 1 < length part) (Split clean ''_'')) @
      [ToLower clean]"
    using assms len join
    by (simp add: extractPVCParts_def Let_def drop_Suc)
  show ?thesis
  proof (intro exI conjI)
    show "pvcName = seg @ ''-'' @ clean" by (rule decomp)
    show "CHR ''-'' \<notin> set seg" by (rule seg)
    show "Split pvcName ''-'' = seg # Split clean ''-''" by (rule split)
    show "clean = Join (tl (Split pvcName ''-'')) ''-''" by (rule join [symmetric])
    show "extractPVCParts pvcName =
      map ToLower (filter (\<lambda>part. 1 < length part) (Split clean ''-'')) @
      map ToLower (filter (\<lambda>part. 1 < length part) (Split clean ''_'')) @
      [ToLower clean]" by (rule parts)
  qed
qed

theorem extractPVCParts_drops_first_segment_witness:
  "Contains ''svc-app-data'' ''-'' \<and>
   extractPVCParts ''svc-app-data'' = [''app'', ''data'', ''app-data'', ''app-data'']"
proof -
  have h: "Contains ''svc-app-data'' ''-''"
    by (simp add: Contains_def)
  have "extractPVCParts ''svc-app-data'' = [''app'', ''data'', ''app-data'', ''app-data'']"
    by (simp add: extractPVCParts_def eval_strings Let_def)
  with h extractPVCParts_drops_first_segment [OF h] show ?thesis
    by simp
qed

lemma fuzzy_fold_inv:
  assumes "0 \<le> snd best"
    and "snd best = 0 \<longrightarrow> fst best = []"
    and "0 < snd best \<longrightarrow> calculateComposeMatchScore a (fst best) = snd best"
  shows "snd best \<le> snd (fold (fuzzyStep a) ks best) \<and>
         (\<forall>k\<in>set ks. calculateComposeMatchScore a k \<le> snd (fold (fuzzyStep a) ks best)) \<and>
         (snd (fold (fuzzyStep a) ks best) = 0 \<longrightarrow> fst (fold (fuzzyStep a) ks best) = []) \<and>
         (0 < snd (fold (fuzzyStep a) ks best) \<longrightarrow>
            calculateComposeMatchScore a (fst (fold (fuzzyStep a) ks best)) =
              snd (fold (fuzzyStep a) ks best) \<and>
            (fold (fuzzyStep a) ks best = best \<or> fst (fold (fuzzyStep a) ks best) \<in> set ks))"
  using assms
proof (induction ks arbitrary: best)
  case Nil
  then show ?case by simp
next
  case (Cons k ks)
  let ?b = "fuzzyStep a k best"
  have b: "0 \<le> snd ?b" "snd ?b = 0 \<longrightarrow> fst ?b = []"
    "0 < snd ?b \<longrightarrow> calculateComposeMatchScore a (fst ?b) = snd ?b"
    "snd best \<le> snd ?b" "calculateComposeMatchScore a k \<le> snd ?b"
    "?b = best \<or> ?b = (k, calculateComposeMatchScore a k)"
    using Cons.prems by (auto simp: fuzzyStep_def Let_def)
  from Cons.IH [OF b(1-3)] b(4-6) show ?case
    by (auto simp: fuzzyStep_def Let_def)
qed

lemma score_empty_name:
  "volumeName \<noteq> [] \<Longrightarrow> calculateComposeMatchScore volumeName [] = 0"
  by (simp add: calculateComposeMatchScore_def Contains_def HasSuffix_def ToLower_def)

text \<open>
  The fuzzy match runs only after the lookup of the name itself has missed: the name is
  one of its own variations.
\<close>

lemma firstVariation_None:
  "firstVariation dockerVolumes variations = None \<longleftrightarrow>
     (\<forall>variation\<in>set variations. map_of dockerVolumes variation = None)"
  by (induction variations) (auto split: option.splits)

lemma findDockerVolumeForMapping_cases:
  "(\<exists>k\<in>set (DockerVolume mapping #
        GetVolumeVariations projectName (VolumeMapping.VolumeName mapping)).
      map_of dockerVolumes k \<noteq> None \<and>
      findDockerVolumeForMapping projectName dockerVolumes mapping = map_of dockerVolumes k) \<or>
   (VolumeMapping.VolumeName mapping \<notin> fst ` set dockerVolumes \<and>
    findDockerVolumeForMapping projectName dockerVolumes mapping =
      findFuzzyMatchForCompose dockerVolumes (VolumeMapping.VolumeName mapping))"
proof (cases "map_of dockerVolumes (DockerVolume mapping)")
  case (Some volume)
  then show ?thesis by (auto simp: findDockerVolumeForMapping_def)
next
  case None
  show ?thesis
  proof (cases "firstVariation dockerVolumes
      (GetVolumeVariations projectName (VolumeMapping.VolumeName mapping))")
    case miss: None
    then have "\<forall>variation\<in>set (GetVolumeVariations projectName (VolumeMapping.VolumeName mapping)).
        map_of dockerVolumes variation = None"
      by (simp only: firstVariation_None)
    then have "map_of dockerVolumes (VolumeMapping.VolumeName mapping) = None"
      by (simp add: GetVolumeVariations_def)
    then have "VolumeMapping.VolumeName mapping \<notin> fst ` set dockerVolumes"
      by (simp add: map_of_eq_None_iff)
    with None miss show ?thesis by (simp add: findDockerVolumeForMapping_def)
  next
    case (Some volume)
    have hit: "\<exists>k\<in>set variations. map_of dockerVolumes k = Some volume"
      if "firstVariation dockerVolumes variations = Some volume" for variations
      using that by (induction variations) (auto split: option.splits)
    from hit [OF Some] None Some show ?thesis
      by (auto simp: findDockerVolumeForMapping_def)
  qed
qed

text \<open>
  Claim C8. \<open>calculateComposeMatchScore\<close> is 3 for a substring match plus 2 for a
  suffix match plus 4 for a match behind \<open>_\<close> or \<open>-\<close>, all in lower case.
  \<open>findFuzzyMatchForCompose\<close> returns nil exactly when no volume of the inventory
  scores above 0, and otherwise a volume of the inventory whose score is positive and
  maximal. The code keeps the best name in a string that starts empty and returns nil
  when it ends empty, so the statement is for a non-empty alias or an inventory without
  an empty volume name (Docker has no volume with an empty name). On every call from
  \<open>findDockerVolumeForMapping\<close> the alias is no volume name of the inventory, as shown
  above, and so it is not an empty one.
\<close>

theorem compose_score_and_fuzzy_match:
  assumes "volumeName \<noteq> [] \<or> [] \<notin> fst ` set dockerVolumes"
  shows "calculateComposeMatchScore volumeName dockerVolumeName =
           (if Contains (ToLower dockerVolumeName) (ToLower volumeName) then 3 else 0) +
           (if HasSuffix (ToLower dockerVolumeName) (ToLower volumeName) then 2 else 0) +
           (if Contains (ToLower dockerVolumeName) (''_'' @ ToLower volumeName) \<or>
               Contains (ToLower dockerVolumeName) (''-'' @ ToLower volumeName) then 4 else 0) \<and>
         (findFuzzyMatchForCompose dockerVolumes volumeName = None \<longleftrightarrow>
            (\<forall>k\<in>fst ` set dockerVolumes. calculateComposeMatchScore volumeName k \<le> 0)) \<and>
         (\<forall>vol. findFuzzyMatchForCompose dockerVolumes volumeName = Some vol \<longrightarrow>
            (\<exists>k. map_of dockerVolumes k = Some vol \<and>
                 0 < calculateComposeMatchScore volumeName k \<and>
                 (\<forall>k'\<in>fst ` set dockerVolumes.
                    calculateComposeMatchScore volumeName k' \<le> calculateComposeMatchScore volumeName k)))"
proof -
  define r where "r = fold (fuzzyStep volumeName) (map fst dockerVolumes) ('''', 0)"
  have inv:
    "\<forall>k\<in>set (map fst dockerVolumes). calculateComposeMatchScore volumeName k \<le> snd r"
    "snd r = 0 \<longrightarrow> fst r = []"
    "0 < snd r \<longrightarrow> calculateComposeMatchScore volumeName (fst r) = snd r \<and>
        (r = ('''', 0) \<or> fst r \<in> set (map fst dockerVolumes))"
    "0 \<le> snd r"
    using fuzzy_fold_inv [of "('''', 0)" volumeName "map fst dockerVolumes"]
    unfolding r_def by simp_all
  have res: "findFuzzyMatchForCompose dockerVolumes volumeName =
      (if fst r \<noteq> [] then map_of dockerVolumes (fst r) else None)"
    by (simp add: findFuzzyMatchForCompose_def r_def Let_def)
  have score: "calculateComposeMatchScore volumeName dockerVolumeName =
           (if Contains (ToLower dockerVolumeName) (ToLower volumeName) then 3 else 0) +
           (if HasSuffix (ToLower dockerVolumeName) (ToLower volumeName) then 2 else 0) +
           (if Contains (ToLower dockerVolumeName) (''_'' @ ToLower volumeName) \<or>
               Contains (ToLower dockerVolumeName) (''-'' @ ToLower volumeName) then 4 else 0)"
    by (simp add: calculateComposeMatchScore_def Let_def)
  show ?thesis
  proof (cases "0 < snd r")
    case True
    with inv(3) have k: "calculateComposeMatchScore volumeName (fst r) = snd r"
      "fst r \<in> set (map fst dockerVolumes)" by auto
    have ne: "fst r \<noteq> []"
    proof
      assume e: "fst r = []"
      with k(2) have "[] \<in> fst ` set dockerVolumes" by simp
      with assms have "volumeName \<noteq> []" by blast
      from score_empty_name [OF this] k(1) e True show False by simp
    qed
    from k(2) obtain vol where vol: "map_of dockerVolumes (fst r) = Some vol"
      by (metis list.set_map map_of_eq_None_iff not_Some_eq)
    have none: "findFuzzyMatchForCompose dockerVolumes volumeName \<noteq> None"
      using res ne vol by simp
    have "\<not> (\<forall>k\<in>fst ` set dockerVolumes. calculateComposeMatchScore volumeName k \<le> 0)"
      using k True by force
    with none have iff: "findFuzzyMatchForCompose dockerVolumes volumeName = None \<longleftrightarrow>
        (\<forall>k\<in>fst ` set dockerVolumes. calculateComposeMatchScore volumeName k \<le> 0)"
      by blast
    have best: "\<forall>v. findFuzzyMatchForCompose dockerVolumes volumeName = Some v \<longrightarrow>
      (\<exists>k. map_of dockerVolumes k = Some v \<and> 0 < calculateComposeMatchScore volumeName k \<and>
        (\<forall>k'\<in>fst ` set dockerVolumes.
            calculateComposeMatchScore volumeName k' \<le> calculateComposeMatchScore volumeName k))"
    proof (intro allI impI)
      fix v
      assume "findFuzzyMatchForCompose dockerVolumes volumeName = Some v"
      with res ne vol have "map_of dockerVolumes (fst r) = Some v" by simp
      moreover have "0 < calculateComposeMatchScore volumeName (fst r)"
        using k(1) True by simp
      moreover have "\<forall>k'\<in>fst ` set dockerVolumes.
          calculateComposeMatchScore volumeName k' \<le> calculateComposeMatchScore volumeName (fst r)"
        using inv(1) k(1) by simp
      ultimately show "\<exists>k. map_of dockerVolumes k = Some v \<and>
          0 < calculateComposeMatchScore volumeName k \<and>
          (\<forall>k'\<in>fst ` set dockerVolumes.
            calculateComposeMatchScore volumeName k' \<le> calculateComposeMatchScore volumeName k)"
        by blast
    qed
    show ?thesis
      by (intro conjI) (fact score, fact iff, fact best)
  next
    case False
    with inv(4) have z: "snd r = 0" by simp
    with inv(2) have "fst r = []" by simp
    with res have none: "findFuzzyMatchForCompose dockerVolumes volumeName = None" by simp
    moreover have "\<forall>k\<in>fst ` set dockerVolumes. calculateComposeMatchScore volumeName k \<le> 0"
      using inv(1) z by simp
    ultimately have iff: "findFuzzyMatchForCompose dockerVolumes volumeName = None \<longleftrightarrow>
        (\<forall>k\<in>fst ` set dockerVolumes. calculateComposeMatchScore volumeName k \<le> 0)"
      by blast
    have best: "\<forall>v. findFuzzyMatchForCompose dockerVolumes volumeName = Some v \<longrightarrow>
      (\<exists>k. map_of dockerVolumes k = Some v \<and> 0 < calculateComposeMatchScore volumeName k \<and>
        (\<forall>k'\<in>fst ` set dockerVolumes.
            calculateComposeMatchScore volumeName k' \<le> calculateComposeMatchScore volumeName k))"
      using none by simp
    show ?thesis
      by (intro conjI) (fact score, fact iff, fact best)
  qed
qed

theorem compose_score_and_fuzzy_match_witness:
  "calculateComposeMatchScore ''data'' ''proj_data'' = 9 \<and>
   calculateComposeMatchScore ''data'' ''database'' = 3 \<and>
   findFuzzyMatchForCompose exampleVolumes ''data'' =
     Some \<lparr>Name = ''proj_data'', Mountpoint = ''/var/lib/docker/volumes/proj_data/_data'',
        Size = 10, SizeHuman = ''10B''\<rparr>"
proof -
  have h: "''data'' \<noteq> [] \<or> [] \<notin> fst ` set exampleVolumes"
    by simp
  have s1: "calculateComposeMatchScore ''data'' ''proj_data'' = 9"
    by (simp add: calculateComposeMatchScore_def eval_strings suffix_to_prefix)
  have s2: "calculateComposeMatchScore ''data'' ''database'' = 3"
    by (simp add: calculateComposeMatchScore_def eval_strings suffix_to_prefix)
  have f: "findFuzzyMatchForCompose exampleVolumes ''data'' =
     Some \<lparr>Name = ''proj_data'', Mountpoint = ''/var/lib/docker/volumes/proj_data/_data'',
        Size = 10, SizeHuman = ''10B''\<rparr>"
    by (simp add: findFuzzyMatchForCompose_def fuzzyStep_def exampleVolumes_def s1 s2)
  from compose_score_and_fuzzy_match [OF h, of "''proj_data''"] s1 s2 f show ?thesis
    by simp
qed

section \<open>Properties of the Docker client\<close>

lemma set_AList_update: "set (AList.update k v al) \<subseteq> insert (k, v) (set al)"
  by (induction al) auto

lemma loadVolume_entries:
  assumes "(k, info) \<in> set (loadVolume getVolumeSize volumeSizes volume result)"
  shows "(k, info) \<in> set result \<or>
         (Name info = k \<and>
          (\<forall>m dfSize. volumeSizes = Some m \<longrightarrow> m k = Some dfSize \<longrightarrow> links dfSize \<le> 0))"
proof (cases "(k, info) \<in> set result")
  case True
  then show ?thesis by simp
next
  case False
  with assms show ?thesis
    using set_AList_update
    by (fastforce simp: loadVolume_def Let_def split: if_splits option.splits)
qed

lemma fold_loadVolume_entries:
  assumes "(k, info) \<in> set (fold (loadVolume getVolumeSize volumeSizes) volumes result)"
  shows "(k, info) \<in> set result \<or>
         (Name info = k \<and>
          (\<forall>m dfSize. volumeSizes = Some m \<longrightarrow> m k = Some dfSize \<longrightarrow> links dfSize \<le> 0))"
  using assms
proof (induction volumes arbitrary: result)
  case Nil
  then show ?case by simp
next
  case (Cons v vs)
  from Cons.IH [of "loadVolume getVolumeSize volumeSizes v result"] Cons.prems
  show ?case using loadVolume_entries by fastforce
qed

text \<open>
  The skip of lines 66-70. When \<open>parseDockerDFOutput\<close> has an entry for a volume with a
  number of links above zero, \<open>LoadVolumes\<close> leaves the volume out of the map it
  returns, and neither list of candidates the matcher offers (the volumes that contain a
  part of the PVC name, or all volumes) holds a volume of that name.
\<close>

lemma recorded_in_use_volume_not_loaded:
  assumes "LoadVolumes ParseFloat scale getVolumeSize volumeList (Inr output) = Inr dockerVolumes"
    and "parseDockerDFOutput ParseFloat scale output name = Some dfSize"
    and "0 < links dfSize"
  shows "name \<notin> fst ` set dockerVolumes \<and>
         (\<forall>pvc. \<forall>c\<in>set (findVolumesContainingPVCName dockerVolumes pvc). Name c \<noteq> name) \<and>
         (\<forall>c\<in>set (getAllDockerVolumes dockerVolumes). Name c \<noteq> name)"
proof -
  from assms(1) obtain volumes where
    dv: "dockerVolumes =
      fold (loadVolume getVolumeSize (Some (parseDockerDFOutput ParseFloat scale output)))
        volumes []"
    by (auto simp: LoadVolumes_def getVolumeSizesFromDockerDF_def split: sum.splits)
  have entry: "Name info = k \<and> k \<noteq> name" if "(k, info) \<in> set dockerVolumes" for k info
  proof -
    from fold_loadVolume_entries [OF that [unfolded dv]]
    have "Name info = k"
      and "\<forall>d. parseDockerDFOutput ParseFloat scale output k = Some d \<longrightarrow> links d \<le> 0"
      by auto
    with assms(2,3) show ?thesis by force
  qed
  have "name \<notin> fst ` set dockerVolumes"
    using entry by force
  moreover have "Name c \<noteq> name" if "c \<in> snd ` set dockerVolumes" for c
    using that entry by force
  ultimately show ?thesis
    by (auto simp: findVolumesContainingPVCName_def getAllDockerVolumes_def Let_def)
qed

lemma recorded_in_use_volume_not_loaded_example:
  "LoadVolumes exampleParseFloat (*) (\<lambda>mountpoint. (0, ''0 B'')) (Inr exampleDaemonVolumes)
       (Inr exampleDF) = Inr [(''app_data'', exampleAppData)] \<and>
   parseDockerDFOutput exampleParseFloat (*) exampleDF ''db_data'' =
     Some \<lparr>bytes = 1000000000, human = ''1.2GB'', links = 2\<rparr> \<and>
   ''db_data'' \<notin> fst ` set [(''app_data'', exampleAppData)] \<and>
   findVolumesContainingPVCName [(''app_data'', exampleAppData)] examplePVC = [exampleAppData]"
proof -
  have df: "parseDockerDFOutput exampleParseFloat (*) exampleDF =
      [''app_data'' \<mapsto> \<lparr>bytes = 500000000, human = ''500MB'', links = 0\<rparr>,
       ''db_data'' \<mapsto> \<lparr>bytes = 1000000000, human = ''1.2GB'', links = 2\<rparr>]"
    by (simp add: parseDockerDFOutput_def parseDockerDFLine_def exampleDF_def eval_strings
        parseSizeString_def matchSize_def isReSpace_def unitMultiplier_def
        exampleParseFloat_def Let_def)
  have h1: "LoadVolumes exampleParseFloat (*) (\<lambda>mountpoint. (0, ''0 B''))
      (Inr exampleDaemonVolumes) (Inr exampleDF) = Inr [(''app_data'', exampleAppData)]"
    by (simp add: LoadVolumes_def getVolumeSizesFromDockerDF_def df loadVolume_def
        exampleDaemonVolumes_def exampleAppData_def)
  have h2: "parseDockerDFOutput exampleParseFloat (*) exampleDF ''db_data'' =
      Some \<lparr>bytes = 1000000000, human = ''1.2GB'', links = 2\<rparr>"
    by (simp add: df)
  have h3: "0 < links \<lparr>bytes = 1000000000, human = ''1.2GB'', links = 2\<rparr>"
    by simp
  have c: "findVolumesContainingPVCName [(''app_data'', exampleAppData)] examplePVC =
      [exampleAppData]"
    by (simp add: findVolumesContainingPVCName_def extractPVCParts_def
        volumeContainsPVCParts_def examplePVC_def exampleAppData_def eval_strings Let_def)
  from recorded_in_use_volume_not_loaded [OF h1 h2 h3] h1 h2 c show ?thesis
    by simp
qed

text \<open>
  Claim C3 at a line of \<open>docker system df -v\<close> whose size does not parse. The line
  \<^verbatim>\<open>busy 2 -1B\<close> reports two links; \<open>parseSizeString\<close> rejects \<^verbatim>\<open>-1B\<close>, the loop of
  \<open>parseDockerDFOutput\<close> goes on to the next line without an entry for the volume, and
  the count of links it had read is lost. \<open>LoadVolumes\<close> then finds no entry, keeps
  \<open>links\<close> at 0 and puts the volume into the map, and the matcher offers it. The volume
  \<open>db_data\<close> of the same output, two links and a size that parses, is left out.
\<close>

theorem LoadVolumes_loads_in_use_volume:
  "Fields ''busy           2         -1B'' = [''busy'', ''2'', ''-1B''] \<and>
   Atoi ''2'' = Inr 2 \<and>
   parseSizeString exampleParseFloat (*) ''-1B'' = Inl ''invalid size format: -1B'' \<and>
   parseDockerDFOutput exampleParseFloat (*) exampleBusyDF ''busy'' = None \<and>
   parseDockerDFOutput exampleParseFloat (*) exampleBusyDF ''db_data'' =
     Some \<lparr>bytes = 1000000000, human = ''1.2GB'', links = 2\<rparr> \<and>
   LoadVolumes exampleParseFloat (*) (\<lambda>mountpoint. (0, ''0 B'')) (Inr exampleBusyVolumes)
       (Inr exampleBusyDF) = Inr [(''app_data'', exampleAppData), (''busy'', exampleBusy)] \<and>
   findVolumesContainingPVCName [(''app_data'', exampleAppData), (''busy'', exampleBusy)]
       exampleBusyPVC = [exampleBusy] \<and>
   getAllDockerVolumes [(''app_data'', exampleAppData), (''busy'', exampleBusy)] =
     [exampleAppData, exampleBusy]"
proof -
  have fields: "Fields ''busy           2         -1B'' = [''busy'', ''2'', ''-1B'']"
    by (simp add: eval_strings)
  have links: "Atoi ''2'' = Inr 2"
    by (simp add: eval_strings)
  have size: "parseSizeString exampleParseFloat (*) ''-1B'' = Inl ''invalid size format: -1B''"
    by (simp add: parseSizeString_def matchSize_def eval_strings Let_def)
  have df: "parseDockerDFOutput exampleParseFloat (*) exampleBusyDF =
      [''app_data'' \<mapsto> \<lparr>bytes = 500000000, human = ''500MB'', links = 0\<rparr>,
       ''db_data'' \<mapsto> \<lparr>bytes = 1000000000, human = ''1.2GB'', links = 2\<rparr>]"
    by (simp add: parseDockerDFOutput_def parseDockerDFLine_def exampleBusyDF_def exampleDF_def
        eval_strings parseSizeString_def matchSize_def isReSpace_def unitMultiplier_def
        exampleParseFloat_def Let_def)
  have busy: "parseDockerDFOutput exampleParseFloat (*) exampleBusyDF ''busy'' = None"
    by (simp add: df)
  have db: "parseDockerDFOutput exampleParseFloat (*) exampleBusyDF ''db_data'' =
      Some \<lparr>bytes = 1000000000, human = ''1.2GB'', links = 2\<rparr>"
    by (simp add: df)
  have load: "LoadVolumes exampleParseFloat (*) (\<lambda>mountpoint. (0, ''0 B''))
      (Inr exampleBusyVolumes) (Inr exampleBusyDF) =
      Inr [(''app_data'', exampleAppData), (''busy'', exampleBusy)]"
    by (simp add: LoadVolumes_def getVolumeSizesFromDockerDF_def df loadVolume_def
        exampleBusyVolumes_def exampleDaemonVolumes_def exampleAppData_def exampleBusy_def)
  have offered: "findVolumesContainingPVCName
      [(''app_data'', exampleAppData), (''busy'', exampleBusy)] exampleBusyPVC = [exampleBusy]"
    by (simp add: findVolumesContainingPVCName_def extractPVCParts_def
        volumeContainsPVCParts_def exampleBusyPVC_def exampleAppData_def exampleBusy_def
        eval_strings Let_def)
  have all: "getAllDockerVolumes [(''app_data'', exampleAppData), (''busy'', exampleBusy)] =
      [exampleAppData, exampleBusy]"
    by (simp add: getAllDockerVolumes_def exampleAppData_def exampleBusy_def)
  show ?thesis
    by (intro conjI) (fact fields, fact links, fact size, fact busy, fact db, fact load,
        fact offered, fact all)
qed

section \<open>Properties of the prompts\<close>

lemma Printf_fields [simp]:
  "stdin (Printf s w) = stdin w" "clock (Printf s w) = clock w" "trace (Printf s w) = trace w"
  "stdout (Printf s w) = stdout w @ s"
  by (simp_all add: Printf_def)

lemma ReadString_Inl: "ReadString d w = (Inl e, w') \<Longrightarrow> stdin w' = []"
  by (auto simp: ReadString_def split: if_splits)

lemma ReadString_Inr:
  assumes "ReadString (CHR 0x0A) w = (Inr l, w')"
  shows "isLine l \<and> stdin w = l @ stdin w' \<and> w' = w\<lparr>stdin := stdin w'\<rparr>"
proof -
  from assms have mem: "CHR 0x0A \<in> set (stdin w)"
    and l: "l = takeWhile (\<lambda>c. c \<noteq> CHR 0x0A) (stdin w) @ [CHR 0x0A]"
    and w': "w' = w\<lparr>stdin := tl (dropWhile (\<lambda>c. c \<noteq> CHR 0x0A) (stdin w))\<rparr>"
    by (auto simp: ReadString_def split: if_splits)
  have "isLine l"
    unfolding l isLine_def by (auto dest: set_takeWhileD)
  moreover have "stdin w = l @ stdin w'"
    unfolding l w' using takeWhile_dropWhile_single [OF mem] by simp
  moreover have "w' = w\<lparr>stdin := stdin w'\<rparr>"
    unfolding w' by simp
  ultimately show ?thesis by blast
qed

lemma ReadString_line:
  assumes "isLine l" and "stdin w = l @ rest"
  shows "ReadString (CHR 0x0A) w = (Inr l, w\<lparr>stdin := rest\<rparr>)"
proof -
  from assms(1) obtain s where l: "l = s @ [CHR 0x0A]" and s: "CHR 0x0A \<notin> set s"
    unfolding isLine_def by (metis append_butlast_last_id)
  have tw: "takeWhile (\<lambda>c. c \<noteq> CHR 0x0A) (s @ CHR 0x0A # rest) = s"
    using s by (induction s) auto
  have dw: "dropWhile (\<lambda>c. c \<noteq> CHR 0x0A) (s @ CHR 0x0A # rest) = CHR 0x0A # rest"
    using s by (induction s) auto
  show ?thesis
    using assms(2) by (simp add: ReadString_def l tw dw)
qed

lemma selectionLoop_partial:
  assumes "selectionLoop candidates w = Some y"
  shows "\<exists>rejected l choice.
           stdin w = concat rejected @ l @ stdin (snd y) \<and>
           (\<forall>x\<in>set rejected. isLine x \<and> \<not> accepted (length candidates) x) \<and>
           isLine l \<and> Atoi (TrimSpace l) = Inr choice \<and>
           (fst y = None \<longleftrightarrow> choice = 0) \<and>
           (\<forall>v. fst y = Some v \<longrightarrow>
              1 \<le> choice \<and> choice \<le> int (length candidates) \<and>
              v = candidates ! nat (choice - 1) \<and> v \<in> set candidates)"
  using assms
proof (induction rule: selectionLoop.raw_induct [rotated, consumes 1, case_names step])
  case (step loop candidates w y)
  let ?n = "length candidates"
  obtain res w1 where rs: "ReadString (CHR 0x0A) (Printf ''Enter choice: '' w) = (res, w1)"
    by (cases "ReadString (CHR 0x0A) (Printf ''Enter choice: '' w)")
  show ?case
  proof (cases res)
    case (Inl e)
    with rs step.hyps have call:
      "loop candidates (Printf (''Error reading input: '' @ e @ newline) w1) = Some y"
      by simp
    from rs Inl have "stdin w1 = []" by (simp add: ReadString_Inl)
    with step.IH [OF call] show ?thesis by (auto simp: isLine_def)
  next
    case (Inr input)
    from ReadString_Inr [OF rs [unfolded Inr]]
    have line: "isLine input" and sw: "stdin w = input @ stdin w1" by simp_all
    show ?thesis
    proof (cases "Atoi (TrimSpace input)")
      case (Inl e)
      with rs Inr step.hyps have call:
        "loop candidates (Printf (''Please enter a valid number'' @ newline) w1) = Some y"
        by simp
      from step.IH [OF call] obtain rejected l choice where
        d: "stdin w1 = concat rejected @ l @ stdin (snd y)"
          "\<forall>x\<in>set rejected. isLine x \<and> \<not> accepted ?n x"
          "isLine l" "Atoi (TrimSpace l) = Inr choice"
          "fst y = None \<longleftrightarrow> choice = 0"
          "\<forall>v. fst y = Some v \<longrightarrow> 1 \<le> choice \<and> choice \<le> int ?n \<and>
              v = candidates ! nat (choice - 1) \<and> v \<in> set candidates"
        by auto
      have rej: "\<not> accepted ?n input" using Inl by (simp add: accepted_def)
      show ?thesis
      proof (intro exI conjI)
        show "stdin w = concat (input # rejected) @ l @ stdin (snd y)"
          using sw d(1) by simp
        show "\<forall>x\<in>set (input # rejected). isLine x \<and> \<not> accepted ?n x"
          using d(2) line rej by simp
        show "isLine l" by (rule d(3))
        show "Atoi (TrimSpace l) = Inr choice" by (rule d(4))
        show "fst y = None \<longleftrightarrow> choice = 0" by (rule d(5))
        show "\<forall>v. fst y = Some v \<longrightarrow> 1 \<le> choice \<and> choice \<le> int ?n \<and>
              v = candidates ! nat (choice - 1) \<and> v \<in> set candidates" by (rule d(6))
      qed
    next
      case (Inr choice)
      consider (skip) "choice = 0" | (pick) "1 \<le> choice" "choice \<le> int ?n"
        | (bad) "choice \<noteq> 0" "\<not> (1 \<le> choice \<and> choice \<le> int ?n)"
        by blast
      then show ?thesis
      proof cases
        case skip
        with rs \<open>res = Inr input\<close> Inr step.hyps have y: "y = (None, w1)" by simp
        show ?thesis
        proof (intro exI conjI)
          show "stdin w = concat [] @ input @ stdin (snd y)" using sw y by simp
          show "\<forall>x\<in>set []. isLine x \<and> \<not> accepted ?n x" by simp
          show "isLine input" by (rule line)
          show "Atoi (TrimSpace input) = Inr choice" by (rule Inr)
          show "fst y = None \<longleftrightarrow> choice = 0" using y skip by simp
          show "\<forall>v. fst y = Some v \<longrightarrow> 1 \<le> choice \<and> choice \<le> int ?n \<and>
              v = candidates ! nat (choice - 1) \<and> v \<in> set candidates" using y by simp
        qed
      next
        case pick
        with rs \<open>res = Inr input\<close> Inr step.hyps have y:
          "y = (Some (candidates ! nat (choice - 1)),
                Printf (''Selected: '' @ Name (candidates ! nat (choice - 1)) @ newline) w1)"
          by (simp add: Let_def)
        from pick have idx: "nat (choice - 1) < ?n" by linarith
        show ?thesis
        proof (intro exI conjI)
          show "stdin w = concat [] @ input @ stdin (snd y)" using sw y by simp
          show "\<forall>x\<in>set []. isLine x \<and> \<not> accepted ?n x" by simp
          show "isLine input" by (rule line)
          show "Atoi (TrimSpace input) = Inr choice" by (rule Inr)
          show "fst y = None \<longleftrightarrow> choice = 0" using y pick by simp
          show "\<forall>v. fst y = Some v \<longrightarrow> 1 \<le> choice \<and> choice \<le> int ?n \<and>
              v = candidates ! nat (choice - 1) \<and> v \<in> set candidates"
            using y pick idx by simp
        qed
      next
        case bad
        with rs \<open>res = Inr input\<close> Inr step.hyps have call:
          "loop candidates
             (Printf (''Invalid choice. Please enter 0-'' @ itoa ?n @ newline) w1) = Some y"
          by simp
        from step.IH [OF call] obtain rejected l c where
          d: "stdin w1 = concat rejected @ l @ stdin (snd y)"
            "\<forall>x\<in>set rejected. isLine x \<and> \<not> accepted ?n x"
            "isLine l" "Atoi (TrimSpace l) = Inr c"
            "fst y = None \<longleftrightarrow> c = 0"
            "\<forall>v. fst y = Some v \<longrightarrow> 1 \<le> c \<and> c \<le> int ?n \<and>
                v = candidates ! nat (c - 1) \<and> v \<in> set candidates"
          by auto
        have rej: "\<not> accepted ?n input" using Inr bad by (simp add: accepted_def)
        show ?thesis
        proof (intro exI conjI)
          show "stdin w = concat (input # rejected) @ l @ stdin (snd y)"
            using sw d(1) by simp
          show "\<forall>x\<in>set (input # rejected). isLine x \<and> \<not> accepted ?n x"
            using d(2) line rej by simp
          show "isLine l" by (rule d(3))
          show "Atoi (TrimSpace l) = Inr c" by (rule d(4))
          show "fst y = None \<longleftrightarrow> c = 0" by (rule d(5))
          show "\<forall>v. fst y = Some v \<longrightarrow> 1 \<le> c \<and> c \<le> int ?n \<and>
                v = candidates ! nat (c - 1) \<and> v \<in> set candidates" by (rule d(6))
        qed
      qed
    qed
  qed
qed

lemma selectionLoop_returns:
  assumes "\<forall>x\<in>set rejected. isLine x \<and> \<not> accepted (length candidates) x"
    and "isLine l" and "accepted (length candidates) l"
    and "stdin w = concat rejected @ l @ rest"
  shows "\<exists>r w'. selectionLoop candidates w = Some (r, w') \<and> stdin w' = rest"
  using assms
proof (induction rejected arbitrary: w)
  case Nil
  from Nil.prems(4) have rs:
    "ReadString (CHR 0x0A) (Printf ''Enter choice: '' w)
       = (Inr l, (Printf ''Enter choice: '' w)\<lparr>stdin := rest\<rparr>)"
    using ReadString_line [OF Nil.prems(2), of "Printf ''Enter choice: '' w" rest] by simp
  from Nil.prems(3) obtain choice where
    c: "Atoi (TrimSpace l) = Inr choice" "choice = 0 \<or> 1 \<le> choice \<and> choice \<le> int (length candidates)"
    by (auto simp: accepted_def split: sum.splits)
  show ?case
    using c by (subst selectionLoop.simps) (auto simp: rs Let_def)
next
  case (Cons x xs)
  from Cons.prems(1) have x: "isLine x" "\<not> accepted (length candidates) x" by simp_all
  from Cons.prems(4) have rs:
    "ReadString (CHR 0x0A) (Printf ''Enter choice: '' w)
       = (Inr x, (Printf ''Enter choice: '' w)\<lparr>stdin := concat xs @ l @ rest\<rparr>)"
    using ReadString_line [OF x(1), of "Printf ''Enter choice: '' w" "concat xs @ l @ rest"]
    by simp
  have step: "\<exists>r w'. selectionLoop candidates (Printf s ((Printf ''Enter choice: '' w)\<lparr>stdin := concat xs @ l @ rest\<rparr>))
      = Some (r, w') \<and> stdin w' = rest" for s
    using Cons.IH [of "Printf s ((Printf ''Enter choice: '' w)\<lparr>stdin := concat xs @ l @ rest\<rparr>)"]
      Cons.prems by simp
  show ?case
  proof (cases "Atoi (TrimSpace x)")
    case (Inl e)
    then show ?thesis
      using step by (subst selectionLoop.simps) (simp add: rs)
  next
    case (Inr choice)
    with x(2) have "choice \<noteq> 0" "\<not> (1 \<le> choice \<and> choice \<le> int (length candidates))"
      by (auto simp: accepted_def)
    with Inr show ?thesis
      using step by (subst selectionLoop.simps) (auto simp: rs)
  qed
qed


lemma printCandidates_stdin [simp]: "stdin (printCandidates candidates w) = stdin w"
proof -
  have "stdin (fold (\<lambda>(i, volume). Printf (f i volume)) xs w) = stdin w" for f xs
    by (induction xs arbitrary: w) auto
  then show ?thesis by (simp add: printCandidates_def)
qed

text \<open>
  Claim C10. When \<open>interactiveVolumeSelection\<close> returns, it has read some lines it
  rejected (not a number, or a number that is neither 0 nor in 1..len(candidates)) and
  then one line with an accepted number: it returns nil exactly when that number is 0,
  and otherwise \<open>candidates[choice-1]\<close> with \<open>1 \<le> choice \<le> len(candidates)\<close>, an
  element of the list it displayed. Rejected lines never end the loop: whenever the
  input holds rejected lines followed by an accepted one, the function returns, having
  read exactly up to that line.
\<close>

theorem interactiveVolumeSelection_returns_offered:
  "(\<forall>r w'. interactiveVolumeSelection pvc candidates w = Some (r, w') \<longrightarrow>
      (\<exists>rejected l choice.
          stdin w = concat rejected @ l @ stdin w' \<and>
          (\<forall>x\<in>set rejected. isLine x \<and> \<not> accepted (length candidates) x) \<and>
          isLine l \<and> Atoi (TrimSpace l) = Inr choice \<and>
          (r = None \<longleftrightarrow> choice = 0) \<and>
          (\<forall>v. r = Some v \<longrightarrow>
             1 \<le> choice \<and> choice \<le> int (length candidates) \<and>
             v = candidates ! nat (choice - 1) \<and> v \<in> set candidates))) \<and>
   (\<forall>rejected l rest.
      (\<forall>x\<in>set rejected. isLine x \<and> \<not> accepted (length candidates) x) \<and>
      isLine l \<and> accepted (length candidates) l \<and>
      stdin w = concat rejected @ l @ rest \<longrightarrow>
      (\<exists>r w'. interactiveVolumeSelection pvc candidates w = Some (r, w') \<and> stdin w' = rest))"
proof (intro conjI allI impI)
  fix r w'
  assume "interactiveVolumeSelection pvc candidates w = Some (r, w')"
  from selectionLoop_partial [OF this [unfolded interactiveVolumeSelection_def]]
  show "\<exists>rejected l choice.
          stdin w = concat rejected @ l @ stdin w' \<and>
          (\<forall>x\<in>set rejected. isLine x \<and> \<not> accepted (length candidates) x) \<and>
          isLine l \<and> Atoi (TrimSpace l) = Inr choice \<and>
          (r = None \<longleftrightarrow> choice = 0) \<and>
          (\<forall>v. r = Some v \<longrightarrow>
             1 \<le> choice \<and> choice \<le> int (length candidates) \<and>
             v = candidates ! nat (choice - 1) \<and> v \<in> set candidates)"
    by simp
next
  fix rejected l rest
  assume a: "(\<forall>x\<in>set rejected. isLine x \<and> \<not> accepted (length candidates) x) \<and>
      isLine l \<and> accepted (length candidates) l \<and>
      stdin w = concat rejected @ l @ rest"
  then show "\<exists>r w'. interactiveVolumeSelection pvc candidates w = Some (r, w') \<and> stdin w' = rest"
    unfolding interactiveVolumeSelection_def
    by (intro selectionLoop_returns [of rejected candidates l _ rest]) simp_all
qed

theorem interactiveVolumeSelection_returns_offered_witness:
  "map_option (\<lambda>y. (fst y, stdin (snd y)))
     (interactiveVolumeSelection examplePVC [exampleAppData, exampleDbData] exampleConsole) =
   Some (Some exampleDbData, ''1Gi'' @ newline) \<and>
   accepted 2 ('' 2 '' @ newline) \<and> isLine ('' 2 '' @ newline)"
proof -
  have e: "map_option (\<lambda>y. (fst y, stdin (snd y)))
     (interactiveVolumeSelection examplePVC [exampleAppData, exampleDbData] exampleConsole) =
     Some (Some exampleDbData, ''1Gi'' @ newline)"
    by (simp add: interactiveVolumeSelection_def selectionLoop.simps exampleConsole_def
      ReadString_def Printf_def printCandidates_def newline_def eval_strings Let_def)
  then obtain w' where r: "interactiveVolumeSelection examplePVC [exampleAppData, exampleDbData]
      exampleConsole = Some (Some exampleDbData, w')"
    by auto
  from interactiveVolumeSelection_returns_offered
    [of examplePVC "[exampleAppData, exampleDbData]" exampleConsole] r
  have "exampleDbData \<in> set [exampleAppData, exampleDbData]"
    by blast
  moreover have "accepted 2 ('' 2 '' @ newline)" "isLine ('' 2 '' @ newline)"
    by (simp_all add: accepted_def isLine_def newline_def eval_strings)
  ultimately show ?thesis using e by simp
qed

lemma printPVC_stdin [simp]: "stdin (printPVC pvc w) = stdin w"
  by (simp add: printPVC_def Let_def split: option.splits)

lemma setSizes_lines:
  assumes "length ls = length pvcs" and "\<forall>l\<in>set ls. isLine l"
    and "stdin w = concat ls @ rest"
  shows "\<exists>w'. setSizes ParseQuantity pvcs w =
           (Inr (),
            map (\<lambda>(pvc, l). pvc\<lparr>NewSize := resolvedSize ParseQuantity (RequestedSize pvc) l\<rparr>)
              (zip pvcs ls),
            w') \<and> stdin w' = rest"
  using assms
proof (induction pvcs arbitrary: ls w)
  case Nil
  then show ?case by simp
next
  case (Cons pvc pvcs)
  from Cons.prems(1) obtain l ls' where ls: "ls = l # ls'" "length ls' = length pvcs"
    by (cases ls) auto
  with Cons.prems have l: "isLine l" and ls': "\<forall>l\<in>set ls'. isLine l"
    and sw: "stdin w = l @ concat ls' @ rest"
    by simp_all
  have rs: "ReadString (CHR 0x0A) (printPVC pvc w) =
      (Inr l, (printPVC pvc w)\<lparr>stdin := concat ls' @ rest\<rparr>)"
    using ReadString_line [OF l, of "printPVC pvc w" "concat ls' @ rest"] sw by simp
  define w1 where "w1 = (printPVC pvc w)\<lparr>stdin := concat ls' @ rest\<rparr>"
  define sized where "sized =
     (if TrimSpace l = [] then (pvc\<lparr>NewSize := RequestedSize pvc\<rparr>, w1)
      else if isValidSize ParseQuantity (TrimSpace l) then (pvc\<lparr>NewSize := TrimSpace l\<rparr>, w1)
      else (pvc\<lparr>NewSize := RequestedSize pvc\<rparr>,
            Printf (''  '' @ warningSign @ ''  Invalid size format, using suggested: ''
              @ RequestedSize pvc @ newline) w1))"
  define w2 where "w2 = Printf newline
      (Printf (''  '' @ checkMark @ '' Set PVC size to: '' @ NewSize (fst sized) @ newline)
         (snd sized))"
  have fs: "fst sized = pvc\<lparr>NewSize := resolvedSize ParseQuantity (RequestedSize pvc) l\<rparr>"
    by (simp add: sized_def resolvedSize_def)
  have "stdin (snd sized) = concat ls' @ rest"
    by (simp add: sized_def w1_def)
  then have "stdin w2 = concat ls' @ rest"
    by (simp add: w2_def)
  from Cons.IH [OF ls(2) ls' this] obtain w' where
    ih: "setSizes ParseQuantity pvcs w2 =
      (Inr (),
       map (\<lambda>(pvc, l). pvc\<lparr>NewSize := resolvedSize ParseQuantity (RequestedSize pvc) l\<rparr>)
         (zip pvcs ls'), w')" "stdin w' = rest"
    by blast
  have "setSizes ParseQuantity (pvc # pvcs) w =
      (case setSizes ParseQuantity pvcs w2 of (res, pvcs', w3) \<Rightarrow> (res, fst sized # pvcs', w3))"
    by (simp add: rs Let_def sized_def w2_def w1_def)
  with ih fs ls(1) show ?case by simp
qed

lemma resolvedSize_nonempty:
  "requested \<noteq> [] \<Longrightarrow> resolvedSize ParseQuantity requested l \<noteq> []"
  by (simp add: resolvedSize_def)

text \<open>
  Claim C9, amended. When the operator types one line for every PVC,
  \<open>InteractiveSetSizes\<close> returns no error, whatever the lines are, and changes
  nothing but \<open>NewSize\<close>: on an empty line (after trimming) it is the requested
  size, on a line that parses as a quantity it is the trimmed line, on any other line
  it is the requested size again. It is not empty whenever the requested size is not
  empty.
\<close>

theorem InteractiveSetSizes_resolves:
  assumes "length ls = length pvcs" and "\<forall>l\<in>set ls. isLine l"
    and "stdin w = concat ls @ rest"
  shows "\<exists>pvcs' w'.
           InteractiveSetSizes ParseQuantity pvcs w = (Inr (), pvcs', w') \<and>
           stdin w' = rest \<and> length pvcs' = length pvcs \<and>
           (\<forall>i<length pvcs.
              pvcs' ! i = (pvcs ! i)\<lparr>NewSize := NewSize (pvcs' ! i)\<rparr> \<and>
              (TrimSpace (ls ! i) = [] \<longrightarrow> NewSize (pvcs' ! i) = RequestedSize (pvcs ! i)) \<and>
              (TrimSpace (ls ! i) \<noteq> [] \<and> isValidSize ParseQuantity (TrimSpace (ls ! i)) \<longrightarrow>
                 NewSize (pvcs' ! i) = TrimSpace (ls ! i)) \<and>
              (TrimSpace (ls ! i) \<noteq> [] \<and> \<not> isValidSize ParseQuantity (TrimSpace (ls ! i)) \<longrightarrow>
                 NewSize (pvcs' ! i) = RequestedSize (pvcs ! i)) \<and>
              (RequestedSize (pvcs ! i) \<noteq> [] \<longrightarrow> NewSize (pvcs' ! i) \<noteq> []))"
proof -
  define w0 where "w0 =
    Printf newline
      (Printf (''Use formats like: 1Gi, 500Mi, 2Ti, etc.'' @ newline)
         (Printf (''For each PVC, review the matched Docker volume and set the desired size.''
            @ newline)
            (Printf (newline @ ''=== PVC Size Configuration ==='' @ newline) w)))"
  define pvcs' where "pvcs' =
    map (\<lambda>(pvc, l). pvc\<lparr>NewSize := resolvedSize ParseQuantity (RequestedSize pvc) l\<rparr>)
      (zip pvcs ls)"
  have "stdin w0 = concat ls @ rest"
    using assms(3) by (simp add: w0_def)
  from setSizes_lines [OF assms(1,2) this, of ParseQuantity]
  obtain w' where r: "InteractiveSetSizes ParseQuantity pvcs w = (Inr (), pvcs', w')"
    "stdin w' = rest"
    unfolding InteractiveSetSizes_def w0_def pvcs'_def by blast
  have len: "length pvcs' = length pvcs"
    using assms(1) by (simp add: pvcs'_def)
  have nth: "pvcs' ! i =
      (pvcs ! i)\<lparr>NewSize := resolvedSize ParseQuantity (RequestedSize (pvcs ! i)) (ls ! i)\<rparr>"
    if "i < length pvcs" for i
    using that assms(1) by (simp add: pvcs'_def)
  show ?thesis
  proof (intro exI conjI allI impI)
    show "InteractiveSetSizes ParseQuantity pvcs w = (Inr (), pvcs', w')" by (rule r(1))
    show "stdin w' = rest" by (rule r(2))
    show "length pvcs' = length pvcs" by (rule len)
  qed (simp_all add: nth resolvedSize_def)
qed

theorem InteractiveSetSizes_resolves_witness:
  "fst (InteractiveSetSizes exampleParseQuantity examplePVCs
          \<lparr>stdin = concat exampleSizeLines, stdout = [], clock = 0, trace = []\<rparr>) = Inr () \<and>
   map NewSize (fst (snd (InteractiveSetSizes exampleParseQuantity examplePVCs
          \<lparr>stdin = concat exampleSizeLines, stdout = [], clock = 0, trace = []\<rparr>)))
     = [''1Gi'', ''2Gi'', ''100Mi'']"
proof -
  have h1: "length exampleSizeLines = length examplePVCs"
    by (simp add: exampleSizeLines_def examplePVCs_def)
  have h2: "\<forall>l\<in>set exampleSizeLines. isLine l"
    by (simp add: exampleSizeLines_def isLine_def newline_def)
  have h3: "stdin \<lparr>stdin = concat exampleSizeLines, stdout = [], clock = 0, trace = []\<rparr>
      = concat exampleSizeLines @ []"
    by simp
  from InteractiveSetSizes_resolves [OF h1 h2 h3, of exampleParseQuantity]
  obtain pvcs' w' where r: "InteractiveSetSizes exampleParseQuantity examplePVCs
      \<lparr>stdin = concat exampleSizeLines, stdout = [], clock = 0, trace = []\<rparr> = (Inr (), pvcs', w')"
    and len: "length pvcs' = length examplePVCs"
    and new: "\<forall>i<length examplePVCs.
        (TrimSpace (exampleSizeLines ! i) = [] \<longrightarrow>
           NewSize (pvcs' ! i) = RequestedSize (examplePVCs ! i)) \<and>
        (TrimSpace (exampleSizeLines ! i) \<noteq> [] \<and>
           isValidSize exampleParseQuantity (TrimSpace (exampleSizeLines ! i)) \<longrightarrow>
           NewSize (pvcs' ! i) = TrimSpace (exampleSizeLines ! i)) \<and>
        (TrimSpace (exampleSizeLines ! i) \<noteq> [] \<and>
           \<not> isValidSize exampleParseQuantity (TrimSpace (exampleSizeLines ! i)) \<longrightarrow>
           NewSize (pvcs' ! i) = RequestedSize (examplePVCs ! i))"
    by blast
  have t: "TrimSpace (exampleSizeLines ! 0) = []" "TrimSpace (exampleSizeLines ! 1) = ''2Gi''"
    "TrimSpace (exampleSizeLines ! 2) = ''lots''"
    by (simp_all add: exampleSizeLines_def newline_def TrimSpace_def isSpace_def)
  have v: "isValidSize exampleParseQuantity ''2Gi''" "\<not> isValidSize exampleParseQuantity ''lots''"
    by (simp_all add: isValidSize_def exampleParseQuantity_def)
  from len obtain a b c where p: "pvcs' = [a, b, c]"
    by (auto simp: examplePVCs_def length_Suc_conv)
  from new [rule_format, of 0] new [rule_format, of 1] new [rule_format, of 2] t v
  have "NewSize a = ''1Gi''" "NewSize b = ''2Gi''" "NewSize c = ''100Mi''"
    by (simp_all add: p examplePVCs_def)
  with r p show ?thesis by simp
qed

text \<open>
  Claim C9 as stated says that \<open>NewSize\<close> is set to a non-empty value in all cases.
  A declaration whose requested size is the empty string and an empty line of input
  give the empty \<open>NewSize\<close>.
\<close>

theorem InteractiveSetSizes_empty_size_counterexample:
  "fst (InteractiveSetSizes exampleParseQuantity
          [\<lparr>PVCName = ''svc-app-data'', Namespace = ''default'', RequestedSize = [],
            MatchedVolume = None, NewSize = []\<rparr>]
          \<lparr>stdin = newline, stdout = [], clock = 0, trace = []\<rparr>) = Inr () \<and>
   map NewSize (fst (snd (InteractiveSetSizes exampleParseQuantity
          [\<lparr>PVCName = ''svc-app-data'', Namespace = ''default'', RequestedSize = [],
            MatchedVolume = None, NewSize = []\<rparr>]
          \<lparr>stdin = newline, stdout = [], clock = 0, trace = []\<rparr>))) = [[]]"
  by (simp add: InteractiveSetSizes_def ReadString_def printPVC_def Printf_def newline_def
      TrimSpace_def isSpace_def Let_def)

section \<open>Properties of the engine\<close>

lemma run_fields:
  assumes "run kubectl c w = (r, w1)"
  shows "trace w1 = trace w @ [Exec c r]" and "clock w1 = clock w + cmdDuration r"
    and "stdin w1 = stdin w" and "stdout w1 = stdout w"
  using assms by (auto simp: run_def Let_def)

lemma sleep_fields [simp]:
  "trace (sleep d w) = trace w @ [Sleep d]" "clock (sleep d w) = clock w + d"
  "stdin (sleep d w) = stdin w" "stdout (sleep d w) = stdout w"
  by (simp_all add: sleep_def)

lemma phaseOf_Some:
  "phaseOf r = Some phase \<longleftrightarrow> cmdErr r = None \<and> TrimSpace (cmdOutput r) = phase"
  by (auto simp: phaseOf_def split: option.splits)

lemma polls_simps [simp]:
  "polls [] = 0" "polls (Exec c r # evs) = Suc (polls evs)" "polls (Sleep d # evs) = polls evs"
  by (simp_all add: polls_def)

lemma pvcBoundLoop_trace:
  assumes "pvcBoundLoop kubectl pvc deadline w = (res, w')"
  shows "\<exists>evs. trace w' = trace w @ evs \<and>
           pollTrace (GetPVCPhase (PVCName pvc) (Namespace pvc)) evs \<and>
           \<not> list_ex (reports ''Bound'') (butlast evs) \<and>
           (polls evs = 0 \<or> 5000 * (polls evs - 1) < deadline - clock w) \<and>
           (case res of
              Inr u \<Rightarrow> evs \<noteq> [] \<and> reports ''Bound'' (last evs)
            | Inl e \<Rightarrow> e = ''timeout waiting for PVC '' @ PVCName pvc @ '' to be bound'' \<and>
                deadline \<le> clock w' \<and> \<not> list_ex (reports ''Bound'') evs)"
  using assms
proof (induction kubectl pvc deadline w arbitrary: res w' rule: pvcBoundLoop.induct)
  case (1 kubectl pvc deadline w)
  let ?c = "GetPVCPhase (PVCName pvc) (Namespace pvc)"
  show ?case
  proof (cases "deadline \<le> clock w")
    case True
    with "1.prems" have "res = Inl (''timeout waiting for PVC '' @ PVCName pvc @ '' to be bound'')"
      "w' = w"
      by (simp_all add: pvcBoundLoop.simps [of kubectl pvc deadline w])
    with True show ?thesis by (intro exI [of _ "[]"]) simp
  next
    case False
    obtain r w1 where run: "run kubectl ?c w = (r, w1)"
      by (cases "run kubectl ?c w")
    note f = run_fields [OF run]
    show ?thesis
    proof (cases "cmdErr r = None \<and> TrimSpace (cmdOutput r) = ''Bound''")
      case True
      with False run "1.prems" have "res = Inr ()" "w' = w1"
        by (simp_all add: pvcBoundLoop.simps [of kubectl pvc deadline w])
      with f True False show ?thesis
        by (intro exI [of _ "[Exec ?c r]"]) (simp add: phaseOf_Some)
    next
      case nb: False
      define w2 where "w2 =
        (case cmdErr r of
           Some e \<Rightarrow> sleep (5 * second) w1
         | None \<Rightarrow> sleep (5 * second)
             (Printf (''    PVC status: '' @ TrimSpace (cmdOutput r) @ newline) w1))"
      have rec: "pvcBoundLoop kubectl pvc deadline w2 = (res, w')"
        using False run "1.prems" nb
        by (auto simp: pvcBoundLoop.simps [of kubectl pvc deadline w] w2_def Let_def
            split: option.splits)
      have w2: "trace w2 = trace w @ [Exec ?c r, Sleep 5000]"
        "clock w2 = clock w + cmdDuration r + 5000"
        by (auto simp: w2_def f second_def split: option.splits)
      have "\<exists>evs. trace w' = trace w2 @ evs \<and> pollTrace ?c evs \<and>
           \<not> list_ex (reports ''Bound'') (butlast evs) \<and>
           (polls evs = 0 \<or> 5000 * (polls evs - 1) < deadline - clock w2) \<and>
           (case res of
              Inr u \<Rightarrow> evs \<noteq> [] \<and> reports ''Bound'' (last evs)
            | Inl e \<Rightarrow> e = ''timeout waiting for PVC '' @ PVCName pvc @ '' to be bound'' \<and>
                deadline \<le> clock w' \<and> \<not> list_ex (reports ''Bound'') evs)"
      proof (cases "cmdErr r")
        case None
        with nb have "TrimSpace (cmdOutput r) \<noteq> ''Bound''" by simp
        moreover have "pvcBoundLoop kubectl pvc deadline
            (sleep (5 * second)
               (Printf (''    PVC status: '' @ TrimSpace (cmdOutput r) @ newline) w1)) = (res, w')"
          using rec by (simp add: w2_def None)
        ultimately show ?thesis
          using "1.IH"(1) [OF False run [symmetric] None refl] by (simp add: w2_def None)
      next
        case (Some e)
        have "pvcBoundLoop kubectl pvc deadline (sleep (5 * second) w1) = (res, w')"
          using rec by (simp add: w2_def Some)
        from "1.IH"(2) [OF False run [symmetric] Some this]
        show ?thesis by (simp add: w2_def Some)
      qed
      then obtain evs where evs: "trace w' = trace w2 @ evs" "pollTrace ?c evs"
        "\<not> list_ex (reports ''Bound'') (butlast evs)"
        "polls evs = 0 \<or> 5000 * (polls evs - 1) < deadline - clock w2"
        "case res of
              Inr u \<Rightarrow> evs \<noteq> [] \<and> reports ''Bound'' (last evs)
            | Inl e \<Rightarrow> e = ''timeout waiting for PVC '' @ PVCName pvc @ '' to be bound'' \<and>
                deadline \<le> clock w' \<and> \<not> list_ex (reports ''Bound'') evs"
        by blast
      have nrep: "phaseOf r \<noteq> Some ''Bound''"
        using nb by (simp add: phaseOf_Some)
      show ?thesis
      proof (intro exI [of _ "Exec ?c r # Sleep 5000 # evs"] conjI)
        show "trace w' = trace w @ Exec ?c r # Sleep 5000 # evs"
          using evs(1) w2(1) by simp
        show "pollTrace ?c (Exec ?c r # Sleep 5000 # evs)"
          using evs(2) by simp
        show "\<not> list_ex (reports ''Bound'') (butlast (Exec ?c r # Sleep 5000 # evs))"
          using evs(3) nrep by (cases evs) simp_all
        show "polls (Exec ?c r # Sleep 5000 # evs) = 0 \<or>
            5000 * (polls (Exec ?c r # Sleep 5000 # evs) - 1) < deadline - clock w"
          using evs(4) False w2(2) by (cases "polls evs") auto
        show "case res of
              Inr u \<Rightarrow> Exec ?c r # Sleep 5000 # evs \<noteq> [] \<and>
                reports ''Bound'' (last (Exec ?c r # Sleep 5000 # evs))
            | Inl e \<Rightarrow> e = ''timeout waiting for PVC '' @ PVCName pvc @ '' to be bound'' \<and>
                deadline \<le> clock w' \<and>
                \<not> list_ex (reports ''Bound'') (Exec ?c r # Sleep 5000 # evs)"
          using evs(5) nrep by (cases res) auto
      qed
    qed
  qed
qed


lemma pvcBoundLoop_152_trace:
  assumes "pvcBoundLoop_152 kubectl e pvc deadline w = (res, w')"
  shows "\<exists>evs. trace w' = trace w @ evs \<and>
           pollTrace (GetPVCPhase (PVCName pvc) (migrationNamespace e)) evs \<and>
           \<not> list_ex (reports ''Bound'') (butlast evs) \<and>
           \<not> list_ex (reports ''Failed'') (butlast evs) \<and>
           (polls evs = 0 \<or> 5000 * (polls evs - 1) < deadline - clock w) \<and>
           (case res of
              Inr u \<Rightarrow> evs \<noteq> [] \<and> reports ''Bound'' (last evs)
            | Inl e \<Rightarrow>
                (e = ''PVC failed to bind'' \<and> evs \<noteq> [] \<and> reports ''Failed'' (last evs)) \<or>
                (e = ''timeout waiting for PVC '' @ PVCName pvc @ '' to be bound'' \<and> deadline \<le> clock w' \<and>
                 \<not> list_ex (reports ''Bound'') evs \<and> \<not> list_ex (reports ''Failed'') evs))"
  using assms
proof (induction kubectl e pvc deadline w arbitrary: res w' rule: pvcBoundLoop_152.induct)
  case (1 kubectl e pvc deadline w)
  let ?c = "GetPVCPhase (PVCName pvc) (migrationNamespace e)"
  show ?case
  proof (cases "deadline \<le> clock w")
    case True
    with "1.prems" have "res = Inl (''timeout waiting for PVC '' @ PVCName pvc @ '' to be bound'')" "w' = w"
      by (simp_all add: pvcBoundLoop_152.simps [of kubectl e pvc deadline w])
    with True show ?thesis by (intro exI [of _ "[]"]) simp
  next
    case False
    obtain r w1 where run: "run kubectl ?c w = (r, w1)"
      by (cases "run kubectl ?c w")
    note f = run_fields [OF run]
    consider (good) "cmdErr r = None" "TrimSpace (cmdOutput r) = ''Bound''"
      | (failed) "cmdErr r = None" "TrimSpace (cmdOutput r) = ''Failed''"
      | (other) "cmdErr r = None" "TrimSpace (cmdOutput r) \<noteq> ''Bound''"
          "TrimSpace (cmdOutput r) \<noteq> ''Failed''"
      | (error) er where "cmdErr r = Some er"
      by (cases "cmdErr r") auto
    then show ?thesis
    proof cases
      case good
      with False run "1.prems" have "res = Inr ()" "trace w' = trace w1" "clock w' = clock w1"
        by (auto simp: pvcBoundLoop_152.simps [of kubectl e pvc deadline w] Let_def)
      with f good False show ?thesis
        by (intro exI [of _ "[Exec ?c r]"]) (simp add: phaseOf_Some)
    next
      case failed
      with False run "1.prems" have "res = Inl ''PVC failed to bind''" "trace w' = trace w1"
        "clock w' = clock w1"
        by (auto simp: pvcBoundLoop_152.simps [of kubectl e pvc deadline w] Let_def)
      with f failed False show ?thesis
        by (intro exI [of _ "[Exec ?c r]"]) (simp add: phaseOf_Some)
    next
      case other
      define w2 where "w2 = sleep (5 * second) (Printf (''    PVC status: '' @ TrimSpace (cmdOutput r) @ newline) w1)"
      have rec: "pvcBoundLoop_152 kubectl e pvc deadline w2 = (res, w')"
        using False run "1.prems" other
        by (simp add: pvcBoundLoop_152.simps [of kubectl e pvc deadline w] w2_def Let_def)
      have w2: "trace w2 = trace w @ [Exec ?c r, Sleep 5000]"
        "clock w2 = clock w + cmdDuration r + 5000"
        by (simp_all add: w2_def f second_def)
      have nrep: "phaseOf r \<noteq> Some ''Bound''" "phaseOf r \<noteq> Some ''Failed''"
        using other by (simp_all add: phaseOf_Some)
      from "1.IH"(1) [OF False run [symmetric] other(1) refl refl other(2) other(3) rec [unfolded w2_def]]
      obtain evs where evs: "trace w' = trace w2 @ evs" "pollTrace ?c evs"
        "\<not> list_ex (reports ''Bound'') (butlast evs)"
        "\<not> list_ex (reports ''Failed'') (butlast evs)"
        "polls evs = 0 \<or> 5000 * (polls evs - 1) < deadline - clock w2"
        "case res of
              Inr u \<Rightarrow> evs \<noteq> [] \<and> reports ''Bound'' (last evs)
            | Inl e \<Rightarrow>
                (e = ''PVC failed to bind'' \<and> evs \<noteq> [] \<and> reports ''Failed'' (last evs)) \<or>
                (e = ''timeout waiting for PVC '' @ PVCName pvc @ '' to be bound'' \<and> deadline \<le> clock w' \<and>
                 \<not> list_ex (reports ''Bound'') evs \<and> \<not> list_ex (reports ''Failed'') evs)"
        unfolding w2_def by blast
      show ?thesis
      proof (intro exI [of _ "Exec ?c r # Sleep 5000 # evs"] conjI)
        show "trace w' = trace w @ Exec ?c r # Sleep 5000 # evs"
          using evs(1) w2(1) by simp
        show "pollTrace ?c (Exec ?c r # Sleep 5000 # evs)"
          using evs(2) by simp
        show "\<not> list_ex (reports ''Bound'') (butlast (Exec ?c r # Sleep 5000 # evs))"
          using evs(3) nrep by (cases evs) simp_all
        show "\<not> list_ex (reports ''Failed'') (butlast (Exec ?c r # Sleep 5000 # evs))"
          using evs(4) nrep by (cases evs) simp_all
        show "polls (Exec ?c r # Sleep 5000 # evs) = 0 \<or>
            5000 * (polls (Exec ?c r # Sleep 5000 # evs) - 1) < deadline - clock w"
          using evs(5) False w2(2) by (cases "polls evs") auto
        show "case res of
              Inr u \<Rightarrow> Exec ?c r # Sleep 5000 # evs \<noteq> [] \<and>
                reports ''Bound'' (last (Exec ?c r # Sleep 5000 # evs))
            | Inl e \<Rightarrow>
                (e = ''PVC failed to bind'' \<and> Exec ?c r # Sleep 5000 # evs \<noteq> [] \<and>
                 reports ''Failed'' (last (Exec ?c r # Sleep 5000 # evs))) \<or>
                (e = ''timeout waiting for PVC '' @ PVCName pvc @ '' to be bound'' \<and> deadline \<le> clock w' \<and>
                 \<not> list_ex (reports ''Bound'') (Exec ?c r # Sleep 5000 # evs) \<and>
                 \<not> list_ex (reports ''Failed'') (Exec ?c r # Sleep 5000 # evs))"
          using evs(6) nrep by (cases res) auto
      qed
    next
      case error
      define w2 where "w2 = sleep (5 * second) (Printf (''    Error checking PVC status: '' @ er @ newline) w1)"
      have rec: "pvcBoundLoop_152 kubectl e pvc deadline w2 = (res, w')"
        using False run "1.prems" error
        by (simp add: pvcBoundLoop_152.simps [of kubectl e pvc deadline w] w2_def Let_def)
      have w2: "trace w2 = trace w @ [Exec ?c r, Sleep 5000]"
        "clock w2 = clock w + cmdDuration r + 5000"
        by (simp_all add: w2_def f second_def)
      have nrep: "phaseOf r \<noteq> Some ''Bound''" "phaseOf r \<noteq> Some ''Failed''"
        using error by (simp_all add: phaseOf_Some)
      from "1.IH"(2) [OF False run [symmetric] error rec [unfolded w2_def]]
      obtain evs where evs: "trace w' = trace w2 @ evs" "pollTrace ?c evs"
        "\<not> list_ex (reports ''Bound'') (butlast evs)"
        "\<not> list_ex (reports ''Failed'') (butlast evs)"
        "polls evs = 0 \<or> 5000 * (polls evs - 1) < deadline - clock w2"
        "case res of
              Inr u \<Rightarrow> evs \<noteq> [] \<and> reports ''Bound'' (last evs)
            | Inl e \<Rightarrow>
                (e = ''PVC failed to bind'' \<and> evs \<noteq> [] \<and> reports ''Failed'' (last evs)) \<or>
                (e = ''timeout waiting for PVC '' @ PVCName pvc @ '' to be bound'' \<and> deadline \<le> clock w' \<and>
                 \<not> list_ex (reports ''Bound'') evs \<and> \<not> list_ex (reports ''Failed'') evs)"
        unfolding w2_def by blast
      show ?thesis
      proof (intro exI [of _ "Exec ?c r # Sleep 5000 # evs"] conjI)
        show "trace w' = trace w @ Exec ?c r # Sleep 5000 # evs"
          using evs(1) w2(1) by simp
        show "pollTrace ?c (Exec ?c r # Sleep 5000 # evs)"
          using evs(2) by simp
        show "\<not> list_ex (reports ''Bound'') (butlast (Exec ?c r # Sleep 5000 # evs))"
          using evs(3) nrep by (cases evs) simp_all
        show "\<not> list_ex (reports ''Failed'') (butlast (Exec ?c r # Sleep 5000 # evs))"
          using evs(4) nrep by (cases evs) simp_all
        show "polls (Exec ?c r # Sleep 5000 # evs) = 0 \<or>
            5000 * (polls (Exec ?c r # Sleep 5000 # evs) - 1) < deadline - clock w"
          using evs(5) False w2(2) by (cases "polls evs") auto
        show "case res of
              Inr u \<Rightarrow> Exec ?c r # Sleep 5000 # evs \<noteq> [] \<and>
                reports ''Bound'' (last (Exec ?c r # Sleep 5000 # evs))
            | Inl e \<Rightarrow>
                (e = ''PVC failed to bind'' \<and> Exec ?c r # Sleep 5000 # evs \<noteq> [] \<and>
                 reports ''Failed'' (last (Exec ?c r # Sleep 5000 # evs))) \<or>
                (e = ''timeout waiting for PVC '' @ PVCName pvc @ '' to be bound'' \<and> deadline \<le> clock w' \<and>
                 \<not> list_ex (reports ''Bound'') (Exec ?c r # Sleep 5000 # evs) \<and>
                 \<not> list_ex (reports ''Failed'') (Exec ?c r # Sleep 5000 # evs))"
          using evs(6) nrep by (cases res) auto
      qed
    qed
  qed
qed

lemma podLoop_trace:
  assumes "podLoop kubectl podName ns deadline w = (res, w')"
  shows "\<exists>evs. trace w' = trace w @ evs \<and>
           pollTrace (GetPodPhase podName ns) evs \<and>
           \<not> list_ex (reports ''Succeeded'') (butlast evs) \<and>
           \<not> list_ex (reports ''Failed'') (butlast evs) \<and>
           (polls evs = 0 \<or> 5000 * (polls evs - 1) < deadline - clock w) \<and>
           (case res of
              Inr u \<Rightarrow> evs \<noteq> [] \<and> reports ''Succeeded'' (last evs)
            | Inl e \<Rightarrow>
                (e = ''migration pod failed'' \<and> evs \<noteq> [] \<and> reports ''Failed'' (last evs)) \<or>
                (e = ''timeout waiting for pod '' @ podName @ '' to complete'' \<and> deadline \<le> clock w' \<and>
                 \<not> list_ex (reports ''Succeeded'') evs \<and> \<not> list_ex (reports ''Failed'') evs))"
  using assms
proof (induction kubectl podName ns deadline w arbitrary: res w' rule: podLoop.induct)
  case (1 kubectl podName ns deadline w)
  let ?c = "GetPodPhase podName ns"
  show ?case
  proof (cases "deadline \<le> clock w")
    case True
    with "1.prems" have "res = Inl (''timeout waiting for pod '' @ podName @ '' to complete'')" "w' = w"
      by (simp_all add: podLoop.simps [of kubectl podName ns deadline w])
    with True show ?thesis by (intro exI [of _ "[]"]) simp
  next
    case False
    obtain r w1 where run: "run kubectl ?c w = (r, w1)"
      by (cases "run kubectl ?c w")
    note f = run_fields [OF run]
    consider (good) "cmdErr r = None" "TrimSpace (cmdOutput r) = ''Succeeded''"
      | (failed) "cmdErr r = None" "TrimSpace (cmdOutput r) = ''Failed''"
      | (other) "cmdErr r = None" "TrimSpace (cmdOutput r) \<noteq> ''Succeeded''"
          "TrimSpace (cmdOutput r) \<noteq> ''Failed''"
      | (error) er where "cmdErr r = Some er"
      by (cases "cmdErr r") auto
    then show ?thesis
    proof cases
      case good
      with False run "1.prems" have "res = Inr ()" "trace w' = trace w1" "clock w' = clock w1"
        by (auto simp: podLoop.simps [of kubectl podName ns deadline w] Let_def)
      with f good False show ?thesis
        by (intro exI [of _ "[Exec ?c r]"]) (simp add: phaseOf_Some)
    next
      case failed
      with False run "1.prems" have "res = Inl ''migration pod failed''" "trace w' = trace w1"
        "clock w' = clock w1"
        by (auto simp: podLoop.simps [of kubectl podName ns deadline w] Let_def)
      with f failed False show ?thesis
        by (intro exI [of _ "[Exec ?c r]"]) (simp add: phaseOf_Some)
    next
      case other
      define w2 where "w2 = sleep (5 * second) (Printf (''    Pod status: '' @ TrimSpace (cmdOutput r) @ newline) w1)"
      have rec: "podLoop kubectl podName ns deadline w2 = (res, w')"
        using False run "1.prems" other
        by (simp add: podLoop.simps [of kubectl podName ns deadline w] w2_def Let_def)
      have w2: "trace w2 = trace w @ [Exec ?c r, Sleep 5000]"
        "clock w2 = clock w + cmdDuration r + 5000"
        by (simp_all add: w2_def f second_def)
      have nrep: "phaseOf r \<noteq> Some ''Succeeded''" "phaseOf r \<noteq> Some ''Failed''"
        using other by (simp_all add: phaseOf_Some)
      from "1.IH"(1) [OF False run [symmetric] other(1) refl other(2) other(3) rec [unfolded w2_def]]
      obtain evs where evs: "trace w' = trace w2 @ evs" "pollTrace ?c evs"
        "\<not> list_ex (reports ''Succeeded'') (butlast evs)"
        "\<not> list_ex (reports ''Failed'') (butlast evs)"
        "polls evs = 0 \<or> 5000 * (polls evs - 1) < deadline - clock w2"
        "case res of
              Inr u \<Rightarrow> evs \<noteq> [] \<and> reports ''Succeeded'' (last evs)
            | Inl e \<Rightarrow>
                (e = ''migration pod failed'' \<and> evs \<noteq> [] \<and> reports ''Failed'' (last evs)) \<or>
                (e = ''timeout waiting for pod '' @ podName @ '' to complete'' \<and> deadline \<le> clock w' \<and>
                 \<not> list_ex (reports ''Succeeded'') evs \<and> \<not> list_ex (reports ''Failed'') evs)"
        unfolding w2_def by blast
      show ?thesis
      proof (intro exI [of _ "Exec ?c r # Sleep 5000 # evs"] conjI)
        show "trace w' = trace w @ Exec ?c r # Sleep 5000 # evs"
          using evs(1) w2(1) by simp
        show "pollTrace ?c (Exec ?c r # Sleep 5000 # evs)"
          using evs(2) by simp
        show "\<not> list_ex (reports ''Succeeded'') (butlast (Exec ?c r # Sleep 5000 # evs))"
          using evs(3) nrep by (cases evs) simp_all
        show "\<not> list_ex (reports ''Failed'') (butlast (Exec ?c r # Sleep 5000 # evs))"
          using evs(4) nrep by (cases evs) simp_all
        show "polls (Exec ?c r # Sleep 5000 # evs) = 0 \<or>
            5000 * (polls (Exec ?c r # Sleep 5000 # evs) - 1) < deadline - clock w"
          using evs(5) False w2(2) by (cases "polls evs") auto
        show "case res of
              Inr u \<Rightarrow> Exec ?c r # Sleep 5000 # evs \<noteq> [] \<and>
                reports ''Succeeded'' (last (Exec ?c r # Sleep 5000 # evs))
            | Inl e \<Rightarrow>
                (e = ''migration pod failed'' \<and> Exec ?c r # Sleep 5000 # evs \<noteq> [] \<and>
                 reports ''Failed'' (last (Exec ?c r # Sleep 5000 # evs))) \<or>
                (e = ''timeout waiting for pod '' @ podName @ '' to complete'' \<and> deadline \<le> clock w' \<and>
                 \<not> list_ex (reports ''Succeeded'') (Exec ?c r # Sleep 5000 # evs) \<and>
                 \<not> list_ex (reports ''Failed'') (Exec ?c r # Sleep 5000 # evs))"
          using evs(6) nrep by (cases res) auto
      qed
    next
      case error
      define w2 where "w2 = sleep (5 * second) w1"
      have rec: "podLoop kubectl podName ns deadline w2 = (res, w')"
        using False run "1.prems" error
        by (simp add: podLoop.simps [of kubectl podName ns deadline w] w2_def Let_def)
      have w2: "trace w2 = trace w @ [Exec ?c r, Sleep 5000]"
        "clock w2 = clock w + cmdDuration r + 5000"
        by (simp_all add: w2_def f second_def)
      have nrep: "phaseOf r \<noteq> Some ''Succeeded''" "phaseOf r \<noteq> Some ''Failed''"
        using error by (simp_all add: phaseOf_Some)
      from "1.IH"(2) [OF False run [symmetric] error rec [unfolded w2_def]]
      obtain evs where evs: "trace w' = trace w2 @ evs" "pollTrace ?c evs"
        "\<not> list_ex (reports ''Succeeded'') (butlast evs)"
        "\<not> list_ex (reports ''Failed'') (butlast evs)"
        "polls evs = 0 \<or> 5000 * (polls evs - 1) < deadline - clock w2"
        "case res of
              Inr u \<Rightarrow> evs \<noteq> [] \<and> reports ''Succeeded'' (last evs)
            | Inl e \<Rightarrow>
                (e = ''migration pod failed'' \<and> evs \<noteq> [] \<and> reports ''Failed'' (last evs)) \<or>
                (e = ''timeout waiting for pod '' @ podName @ '' to complete'' \<and> deadline \<le> clock w' \<and>
                 \<not> list_ex (reports ''Succeeded'') evs \<and> \<not> list_ex (reports ''Failed'') evs)"
        unfolding w2_def by blast
      show ?thesis
      proof (intro exI [of _ "Exec ?c r # Sleep 5000 # evs"] conjI)
        show "trace w' = trace w @ Exec ?c r # Sleep 5000 # evs"
          using evs(1) w2(1) by simp
        show "pollTrace ?c (Exec ?c r # Sleep 5000 # evs)"
          using evs(2) by simp
        show "\<not> list_ex (reports ''Succeeded'') (butlast (Exec ?c r # Sleep 5000 # evs))"
          using evs(3) nrep by (cases evs) simp_all
        show "\<not> list_ex (reports ''Failed'') (butlast (Exec ?c r # Sleep 5000 # evs))"
          using evs(4) nrep by (cases evs) simp_all
        show "polls (Exec ?c r # Sleep 5000 # evs) = 0 \<or>
            5000 * (polls (Exec ?c r # Sleep 5000 # evs) - 1) < deadline - clock w"
          using evs(5) False w2(2) by (cases "polls evs") auto
        show "case res of
              Inr u \<Rightarrow> Exec ?c r # Sleep 5000 # evs \<noteq> [] \<and>
                reports ''Succeeded'' (last (Exec ?c r # Sleep 5000 # evs))
            | Inl e \<Rightarrow>
                (e = ''migration pod failed'' \<and> Exec ?c r # Sleep 5000 # evs \<noteq> [] \<and>
                 reports ''Failed'' (last (Exec ?c r # Sleep 5000 # evs))) \<or>
                (e = ''timeout waiting for pod '' @ podName @ '' to complete'' \<and> deadline \<le> clock w' \<and>
                 \<not> list_ex (reports ''Succeeded'') (Exec ?c r # Sleep 5000 # evs) \<and>
                 \<not> list_ex (reports ''Failed'') (Exec ?c r # Sleep 5000 # evs))"
          using evs(6) nrep by (cases res) auto
      qed
    qed
  qed
qed

text \<open>
  Claim C7, amended. Both texts of \<open>waitForPVCBound\<close> return for every behaviour of
  the cluster, after at most sixty polls that are five seconds of sleep apart. They
  return success on the first poll that reports \<open>Bound\<close>. The function at lines
  152-188 returns the error \<open>PVC failed to bind\<close> on the first poll that reports
  \<open>Failed\<close>, when no poll before it reported \<open>Bound\<close>. Otherwise the only error is
  the timeout, returned once five minutes have passed, and then no poll has reported
  \<open>Bound\<close> (nor \<open>Failed\<close>, for the function at lines 152-188).
\<close>

theorem waitForPVCBound_polling:
  assumes "waitForPVCBound kubectl pvc w = (res, w')"
    and "waitForPVCBound_152 kubectl e pvc w = (res1, w1)"
  shows "(\<exists>evs. trace w' = trace w @ evs \<and>
            pollTrace (GetPVCPhase (PVCName pvc) (Namespace pvc)) evs \<and>
            polls evs \<le> 60 \<and>
            \<not> list_ex (reports ''Bound'') (butlast evs) \<and>
            (case res of
               Inr u \<Rightarrow> evs \<noteq> [] \<and> reports ''Bound'' (last evs)
             | Inl er \<Rightarrow>
                 er = ''timeout waiting for PVC '' @ PVCName pvc @ '' to be bound'' \<and>
                 clock w + 5 * minute \<le> clock w' \<and> \<not> list_ex (reports ''Bound'') evs)) \<and>
         (\<exists>evs. trace w1 = trace w @ evs \<and>
            pollTrace (GetPVCPhase (PVCName pvc) (migrationNamespace e)) evs \<and>
            polls evs \<le> 60 \<and>
            \<not> list_ex (reports ''Bound'') (butlast evs) \<and>
            \<not> list_ex (reports ''Failed'') (butlast evs) \<and>
            (case res1 of
               Inr u \<Rightarrow> evs \<noteq> [] \<and> reports ''Bound'' (last evs)
             | Inl er \<Rightarrow>
                 (er = ''PVC failed to bind'' \<and> evs \<noteq> [] \<and> reports ''Failed'' (last evs)) \<or>
                 (er = ''timeout waiting for PVC '' @ PVCName pvc @ '' to be bound'' \<and>
                  clock w + 5 * minute \<le> clock w1 \<and>
                  \<not> list_ex (reports ''Bound'') evs \<and> \<not> list_ex (reports ''Failed'') evs)))"
proof (rule conjI)
  from pvcBoundLoop_trace [OF assms(1) [unfolded waitForPVCBound_def]]
  obtain evs where evs: "trace w' = trace w @ evs"
    "pollTrace (GetPVCPhase (PVCName pvc) (Namespace pvc)) evs"
    "\<not> list_ex (reports ''Bound'') (butlast evs)"
    "polls evs = 0 \<or> 5000 * (polls evs - 1) < clock w + 5 * minute - clock w"
    "case res of
       Inr u \<Rightarrow> evs \<noteq> [] \<and> reports ''Bound'' (last evs)
     | Inl er \<Rightarrow> er = ''timeout waiting for PVC '' @ PVCName pvc @ '' to be bound'' \<and>
         clock w + 5 * minute \<le> clock w' \<and> \<not> list_ex (reports ''Bound'') evs"
    by blast
  from evs(4) have "polls evs \<le> 60"
    by (auto simp: minute_def second_def)
  with evs(1,2,3,5) show "\<exists>evs. trace w' = trace w @ evs \<and>
            pollTrace (GetPVCPhase (PVCName pvc) (Namespace pvc)) evs \<and>
            polls evs \<le> 60 \<and>
            \<not> list_ex (reports ''Bound'') (butlast evs) \<and>
            (case res of
               Inr u \<Rightarrow> evs \<noteq> [] \<and> reports ''Bound'' (last evs)
             | Inl er \<Rightarrow>
                 er = ''timeout waiting for PVC '' @ PVCName pvc @ '' to be bound'' \<and>
                 clock w + 5 * minute \<le> clock w' \<and> \<not> list_ex (reports ''Bound'') evs)"
    by blast
next
  from pvcBoundLoop_152_trace [OF assms(2) [unfolded waitForPVCBound_152_def]]
  obtain evs where evs: "trace w1 = trace w @ evs"
    "pollTrace (GetPVCPhase (PVCName pvc) (migrationNamespace e)) evs"
    "\<not> list_ex (reports ''Bound'') (butlast evs)"
    "\<not> list_ex (reports ''Failed'') (butlast evs)"
    "polls evs = 0 \<or> 5000 * (polls evs - 1) < clock w + 5 * minute - clock w"
    "case res1 of
       Inr u \<Rightarrow> evs \<noteq> [] \<and> reports ''Bound'' (last evs)
     | Inl er \<Rightarrow>
         (er = ''PVC failed to bind'' \<and> evs \<noteq> [] \<and> reports ''Failed'' (last evs)) \<or>
         (er = ''timeout waiting for PVC '' @ PVCName pvc @ '' to be bound'' \<and>
          clock w + 5 * minute \<le> clock w1 \<and>
          \<not> list_ex (reports ''Bound'') evs \<and> \<not> list_ex (reports ''Failed'') evs)"
    by blast
  from evs(5) have "polls evs \<le> 60"
    by (auto simp: minute_def second_def)
  with evs(1,2,3,4,6) show "\<exists>evs. trace w1 = trace w @ evs \<and>
            pollTrace (GetPVCPhase (PVCName pvc) (migrationNamespace e)) evs \<and>
            polls evs \<le> 60 \<and>
            \<not> list_ex (reports ''Bound'') (butlast evs) \<and>
            \<not> list_ex (reports ''Failed'') (butlast evs) \<and>
            (case res1 of
               Inr u \<Rightarrow> evs \<noteq> [] \<and> reports ''Bound'' (last evs)
             | Inl er \<Rightarrow>
                 (er = ''PVC failed to bind'' \<and> evs \<noteq> [] \<and> reports ''Failed'' (last evs)) \<or>
                 (er = ''timeout waiting for PVC '' @ PVCName pvc @ '' to be bound'' \<and>
                  clock w + 5 * minute \<le> clock w1 \<and>
                  \<not> list_ex (reports ''Bound'') evs \<and> \<not> list_ex (reports ''Failed'') evs))"
    by blast
qed

lemmas eval_engine =
  run_def sleep_def Printf_def second_def minute_def newline_def TrimSpace_def isSpace_def
  polls_def Let_def

theorem waitForPVCBound_polling_witness:
  "fst (waitForPVCBound examplePendingThenBound examplePVC exampleStart) = Inr () \<and>
   polls (trace (snd (waitForPVCBound examplePendingThenBound examplePVC exampleStart))) = 3 \<and>
   clock (snd (waitForPVCBound examplePendingThenBound examplePVC exampleStart)) = 10600 \<and>
   fst (waitForPVCBound_152 examplePendingThenBound exampleEngine examplePVC exampleStart)
     = Inr () \<and>
   polls (trace (snd (waitForPVCBound_152 examplePendingThenBound exampleEngine examplePVC
     exampleStart))) = 3"
proof -
  have v2: "fst (waitForPVCBound examplePendingThenBound examplePVC exampleStart) = Inr ()"
    "polls (trace (snd (waitForPVCBound examplePendingThenBound examplePVC exampleStart))) = 3"
    "clock (snd (waitForPVCBound examplePendingThenBound examplePVC exampleStart)) = 10600"
    by (simp_all add: waitForPVCBound_def pvcBoundLoop.simps examplePendingThenBound_def
        examplePVC_def exampleStart_def eval_engine)
  have v1: "fst (waitForPVCBound_152 examplePendingThenBound exampleEngine examplePVC
      exampleStart) = Inr ()"
    "polls (trace (snd (waitForPVCBound_152 examplePendingThenBound exampleEngine examplePVC
      exampleStart))) = 3"
    by (simp_all add: waitForPVCBound_152_def pvcBoundLoop_152.simps
        examplePendingThenBound_def examplePVC_def exampleStart_def exampleEngine_def
        eval_engine)
  have h1: "waitForPVCBound examplePendingThenBound examplePVC exampleStart =
      (Inr (), snd (waitForPVCBound examplePendingThenBound examplePVC exampleStart))"
    using v2(1) by (metis prod.collapse)
  have h2: "waitForPVCBound_152 examplePendingThenBound exampleEngine examplePVC exampleStart =
      (Inr (), snd (waitForPVCBound_152 examplePendingThenBound exampleEngine examplePVC
        exampleStart))"
    using v1(1) by (metis prod.collapse)
  from waitForPVCBound_polling [OF h1 h2] v1 v2 show ?thesis
    by simp
qed

text \<open>
  Claim C7 as stated has only two outcomes, success on the first \<open>Bound\<close> and the
  timeout after five minutes. With a cluster that reports \<open>Failed\<close>, the function at
  lines 152-188 returns after its first poll, with another error.
\<close>

theorem waitForPVCBound_152_failed_counterexample:
  "fst (waitForPVCBound_152 exampleAlwaysFailed exampleEngine examplePVC exampleStart)
     = Inl ''PVC failed to bind'' \<and>
   clock (snd (waitForPVCBound_152 exampleAlwaysFailed exampleEngine examplePVC exampleStart))
     = 0 \<and>
   polls (trace (snd (waitForPVCBound_152 exampleAlwaysFailed exampleEngine examplePVC
     exampleStart))) = 1"
  by (simp add: waitForPVCBound_152_def pvcBoundLoop_152.simps exampleAlwaysFailed_def
      examplePVC_def exampleStart_def exampleEngine_def eval_engine)

lemma polls_append: "polls (xs @ ys) = polls xs + polls ys"
  by (simp add: polls_def)

lemma pvcBoundLoop_all_failed:
  assumes "\<And>tr. kubectl tr (GetPVCPhase (PVCName pvc) (Namespace pvc)) =
      \<lparr>cmdOutput = ''Failed'', cmdErr = None, cmdDuration = 0\<rparr>"
    and "deadline = clock w + 5000 * k"
  shows "fst (pvcBoundLoop kubectl pvc deadline w) =
           Inl (''timeout waiting for PVC '' @ PVCName pvc @ '' to be bound'') \<and>
         clock (snd (pvcBoundLoop kubectl pvc deadline w)) = deadline \<and>
         polls (trace (snd (pvcBoundLoop kubectl pvc deadline w))) = polls (trace w) + k"
  using assms(2)
proof (induction k arbitrary: w)
  case 0
  then have "pvcBoundLoop kubectl pvc deadline w =
      (Inl (''timeout waiting for PVC '' @ PVCName pvc @ '' to be bound''), w)"
    by (subst pvcBoundLoop.simps) simp
  with 0 show ?case by simp
next
  case (Suc k)
  let ?r = "\<lparr>cmdOutput = ''Failed'', cmdErr = None, cmdDuration = 0\<rparr>"
  let ?c = "GetPVCPhase (PVCName pvc) (Namespace pvc)"
  define w2 where "w2 =
    sleep (5 * second) (Printf (''    PVC status: '' @ ''Failed'' @ newline) (snd (run kubectl ?c w)))"
  have run: "run kubectl ?c w = (?r, w\<lparr>clock := clock w + 0, trace := trace w @ [Exec ?c ?r]\<rparr>)"
    by (simp add: run_def assms(1) Let_def)
  have step: "pvcBoundLoop kubectl pvc deadline w = pvcBoundLoop kubectl pvc deadline w2"
    using Suc.prems
    by (subst pvcBoundLoop.simps) (simp add: run w2_def TrimSpace_def isSpace_def)
  have c2: "clock w2 = clock w + 5000" "polls (trace w2) = polls (trace w) + 1"
    by (simp_all add: w2_def run second_def polls_append)
  with Suc.prems have "deadline = clock w2 + 5000 * k" by simp
  from Suc.IH [OF this] c2 show ?case
    by (simp add: step)
qed

text \<open>
  Claim C2 on the function at lines 559-587: a cluster that reports \<open>Failed\<close> to every
  poll is polled sixty times, and the function returns the timeout after five minutes.
\<close>

theorem waitForPVCBound_ignores_failed:
  "fst (waitForPVCBound exampleAlwaysFailed examplePVC exampleStart) =
     Inl ''timeout waiting for PVC svc-app-data to be bound'' \<and>
   clock (snd (waitForPVCBound exampleAlwaysFailed examplePVC exampleStart)) = 300000 \<and>
   polls (trace (snd (waitForPVCBound exampleAlwaysFailed examplePVC exampleStart))) = 60"
proof -
  have "clock exampleStart + 5 * minute = clock exampleStart + 5000 * 60"
    by (simp add: minute_def second_def)
  from pvcBoundLoop_all_failed [of exampleAlwaysFailed examplePVC, OF _ this]
  show ?thesis
    by (simp add: waitForPVCBound_def exampleAlwaysFailed_def exampleStart_def examplePVC_def
        minute_def second_def)
qed

lemma quiet_refl [simp]: "quiet w w"
  by (simp add: quiet_def)

lemma quiet_Printf [simp]: "quiet w (Printf s w') = quiet w w'" "quiet (Printf s w) w' = quiet w w'"
  by (simp_all add: quiet_def)

lemma quietI:
  "trace w' = trace w @ evs \<Longrightarrow> \<not> list_ex podFailed evs \<Longrightarrow> quiet w w'"
  by (simp add: quiet_def)

lemma quietE:
  assumes "quiet w w'"
  obtains evs where "trace w' = trace w @ evs" "\<not> list_ex podFailed evs"
  using assms by (auto simp: quiet_def prefix_def)

lemma quiet_trans: "quiet w w1 \<Longrightarrow> quiet w1 w2 \<Longrightarrow> quiet w w2"
  by (elim quietE) (auto intro!: quietI [of _ _ "_ @ _"])

lemma podFailedLast_Printf [simp]:
  "podFailedLast pvc w (Printf s w') = podFailedLast pvc w w'"
  "podFailedLast pvc (Printf s w) w' = podFailedLast pvc w w'"
  by (simp_all add: podFailedLast_def)

lemma podFailedLastI:
  assumes "trace w' = trace w @ evs @ [Exec (GetPodPhase podName (Namespace pvc)) r]"
    and "prefix (''migration-'' @ PVCName pvc @ ''-'') podName"
    and "phaseOf r = Some ''Failed''" and "\<not> list_ex podFailed evs"
  shows "podFailedLast pvc w w'"
  using assms by (simp add: podFailedLast_def list_ex_iff)

lemma quiet_podFailedLast:
  assumes "quiet w w1" and "podFailedLast pvc w1 w2"
  shows "podFailedLast pvc w w2"
proof -
  from assms(1) obtain evs where e: "trace w1 = trace w @ evs" "\<not> list_ex podFailed evs"
    by (rule quietE)
  from assms(2) obtain evs' where e': "trace w2 = trace w1 @ evs'"
    by (auto simp: podFailedLast_def prefix_def)
  with assms(2) e show ?thesis
    by (auto simp: podFailedLast_def list_ex_iff split: list.splits event.splits call.splits)
qed

lemma not_quiet_and_failed: "quiet w w' \<Longrightarrow> podFailedLast pvc w w' \<Longrightarrow> False"
  by (auto simp: quiet_def podFailedLast_def list_ex_iff split: list.splits event.splits call.splits
      dest!: arg_cong [where f = set])

lemma quiet_run:
  assumes "run kubectl c w = (r, w1)" and "\<not> podFailed (Exec c r)"
  shows "quiet w w1"
  using assms run_fields(1) [OF assms(1)] by (intro quietI [of _ _ "[Exec c r]"]) simp_all

lemma pollTrace_events:
  "pollTrace c evs \<Longrightarrow> ev \<in> set evs \<Longrightarrow> ev = Sleep 5000 \<or> (\<exists>r. ev = Exec c r)"
  by (induction c evs rule: pollTrace.induct) auto

lemma quiet_createPVC: "createPVC kubectl pvc w = (res, w') \<Longrightarrow> quiet w w'"
  by (auto simp: createPVC_def split: prod.splits option.splits intro: quiet_run)

lemma quiet_showPodLogs: "showPodLogs kubectl podName ns w = (res, w') \<Longrightarrow> quiet w w'"
proof -
  have fold: "trace (fold (\<lambda>line. if P line then Printf (f line) else (\<lambda>w. w)) ls w0) = trace w0"
    for P f ls w0
    by (induction ls arbitrary: w0) auto
  assume "showPodLogs kubectl podName ns w = (res, w')"
  then show ?thesis
    by (auto simp: showPodLogs_def quiet_def fold run_def Let_def split: prod.splits option.splits)
qed

lemma quiet_deletePod: "deletePod kubectl podName ns w = (res, w') \<Longrightarrow> quiet w w'"
  by (auto simp: deletePod_def split: prod.splits option.splits intro: quiet_run)

lemma quiet_waitForPVCBound:
  assumes "waitForPVCBound kubectl pvc w = (res, w')"
  shows "quiet w w'"
proof -
  from pvcBoundLoop_trace [OF assms [unfolded waitForPVCBound_def]]
  obtain evs where evs: "trace w' = trace w @ evs"
    "pollTrace (GetPVCPhase (PVCName pvc) (Namespace pvc)) evs"
    by blast
  have "\<not> podFailed ev" if "ev \<in> set evs" for ev
    using pollTrace_events [OF evs(2) that] by auto
  then show ?thesis
    using evs(1) by (intro quietI [of _ _ evs]) (auto simp: list_ex_iff)
qed

lemma waitForPodCompletion_outcome:
  assumes "waitForPodCompletion kubectl podName ns w = (res, w')"
  shows "quiet w w' \<and> res \<noteq> Inl ''migration pod failed'' \<or>
         res = Inl ''migration pod failed'' \<and>
         (\<exists>evs r. trace w' = trace w @ evs @ [Exec (GetPodPhase podName ns) r] \<and>
            phaseOf r = Some ''Failed'' \<and> \<not> list_ex podFailed evs)"
proof -
  let ?c = "GetPodPhase podName ns"
  from podLoop_trace [OF assms [unfolded waitForPodCompletion_def]]
  obtain evs where evs: "trace w' = trace w @ evs" "pollTrace ?c evs"
    "\<not> list_ex (reports ''Failed'') (butlast evs)"
    "case res of
       Inr u \<Rightarrow> evs \<noteq> [] \<and> reports ''Succeeded'' (last evs)
     | Inl e \<Rightarrow>
         (e = ''migration pod failed'' \<and> evs \<noteq> [] \<and> reports ''Failed'' (last evs)) \<or>
         (e = ''timeout waiting for pod '' @ podName @ '' to complete'' \<and>
          clock w + 10 * minute \<le> clock w' \<and>
          \<not> list_ex (reports ''Succeeded'') evs \<and> \<not> list_ex (reports ''Failed'') evs)"
    by blast
  have pf: "podFailed ev \<Longrightarrow> reports ''Failed'' ev" for ev
    by (cases ev rule: podFailed.cases) auto
  have nb: "\<not> list_ex podFailed (butlast evs)"
    using evs(3) pf by (auto simp: list_ex_iff)
  show ?thesis
  proof (cases "res = Inl ''migration pod failed''")
    case True
    with evs(4) have ne: "evs \<noteq> []" and l: "reports ''Failed'' (last evs)"
      by auto
    from ne have mem: "last evs \<in> set evs" by simp
    from pollTrace_events [OF evs(2) mem] l obtain r where
      r: "last evs = Exec ?c r" "phaseOf r = Some ''Failed''"
      by auto
    from ne r(1) have "evs = butlast evs @ [Exec ?c r]"
      by (metis append_butlast_last_id)
    with evs(1) have "trace w' = trace w @ butlast evs @ [Exec ?c r]" by simp
    with True r(2) nb show ?thesis by blast
  next
    case False
    have "\<not> reports ''Failed'' (last evs)" if "evs \<noteq> []"
      using evs(4) False that last_in_set [OF that]
      by (cases res; cases "last evs") (auto simp: list_ex_iff)
    then have "\<not> list_ex (reports ''Failed'') evs"
      using evs(3) by (cases evs rule: rev_cases) (auto simp: list_ex_iff)
    then have "\<not> list_ex podFailed evs"
      using pf by (auto simp: list_ex_iff)
    with evs(1) False show ?thesis by (auto intro: quietI)
  qed
qed


lemma copyData_outcome:
  assumes "copyData kubectl pvc w = (res, w')"
  shows "quiet w w' \<or>
         res = Inl ''migration pod failed: migration pod failed'' \<and> podFailedLast pvc w w'"
proof (cases "MatchedVolume pvc")
  case None
  with assms show ?thesis by (simp add: copyData_def)
next
  case (Some volume)
  define podName where "podName = ''migration-'' @ PVCName pvc @ ''-'' @ itoa (clock w div 1000)"
  let ?apply = "Apply (PodManifest podName (Namespace pvc) (Mountpoint volume) (PVCName pvc))"
  obtain r w1 where run: "run kubectl ?apply w = (r, w1)"
    by (cases "run kubectl ?apply w")
  have q1: "quiet w w1"
    by (rule quiet_run [OF run]) simp
  show ?thesis
  proof (cases "cmdErr r")
    case (Some e)
    with assms \<open>MatchedVolume pvc = Some volume\<close> run have "w' = w1"
      by (simp add: copyData_def podName_def Let_def)
    with q1 show ?thesis by simp
  next
    case None
    obtain res2 w2 where wait: "waitForPodCompletion kubectl podName (Namespace pvc)
        (Printf (''  Waiting for migration pod to complete...'' @ newline) w1) = (res2, w2)"
      by (cases "waitForPodCompletion kubectl podName (Namespace pvc)
        (Printf (''  Waiting for migration pod to complete...'' @ newline) w1)")
    show ?thesis
    proof (cases res2)
      case (Inl e)
      with assms \<open>MatchedVolume pvc = Some volume\<close> run None wait
      have res: "res = Inl (''migration pod failed: '' @ e)" "w' = w2"
        by (simp_all add: copyData_def podName_def Let_def)
      from waitForPodCompletion_outcome [OF wait] show ?thesis
      proof
        assume "quiet (Printf (''  Waiting for migration pod to complete...'' @ newline) w1) w2
          \<and> res2 \<noteq> Inl ''migration pod failed''"
        with q1 res show ?thesis by (auto intro: quiet_trans)
      next
        assume a: "res2 = Inl ''migration pod failed'' \<and>
         (\<exists>evs r. trace w2 =
            trace (Printf (''  Waiting for migration pod to complete...'' @ newline) w1) @ evs @
              [Exec (GetPodPhase podName (Namespace pvc)) r] \<and>
            phaseOf r = Some ''Failed'' \<and> \<not> list_ex podFailed evs)"
        then obtain evs r' where
          t: "trace w2 = trace w1 @ evs @ [Exec (GetPodPhase podName (Namespace pvc)) r']"
            "phaseOf r' = Some ''Failed''" "\<not> list_ex podFailed evs"
          by auto
        have "prefix (''migration-'' @ PVCName pvc @ ''-'') podName"
          by (simp add: podName_def)
        from podFailedLastI [OF t(1) this t(2,3)] have "podFailedLast pvc w1 w2" .
        with q1 have "podFailedLast pvc w w2" by (rule quiet_podFailedLast)
        with a res Inl show ?thesis by simp
      qed
    next
      case (Inr u)
      with waitForPodCompletion_outcome [OF wait]
      have q2: "quiet w1 w2" by auto
      obtain res3 w3 where logs: "showPodLogs kubectl podName (Namespace pvc)
          (Printf (''  Migration pod logs:'' @ newline) w2) = (res3, w3)"
        by (cases "showPodLogs kubectl podName (Namespace pvc)
          (Printf (''  Migration pod logs:'' @ newline) w2)")
      define w3' where "w3' =
        (case res3 of
           Inl e \<Rightarrow> Printf (''    Warning: Could not retrieve pod logs: '' @ e @ newline) w3
         | Inr u' \<Rightarrow> w3)"
      obtain res4 w4 where del: "deletePod kubectl podName (Namespace pvc) w3' = (res4, w4)"
        by (cases "deletePod kubectl podName (Namespace pvc) w3'")
      define w4' where "w4' =
        (case res4 of
           Inl e \<Rightarrow> Printf (''    Warning: Could not delete migration pod: '' @ e @ newline) w4
         | Inr u' \<Rightarrow> w4)"
      have "w' = w4'"
        using assms \<open>MatchedVolume pvc = Some volume\<close> run None wait Inr logs del
        by (simp add: copyData_def podName_def Let_def w3'_def w4'_def)
      moreover have "quiet w2 w3'"
        using quiet_showPodLogs [OF logs] by (simp add: w3'_def split: sum.splits)
      moreover have "quiet w3' w4'"
        using quiet_deletePod [OF del] by (simp add: w4'_def split: sum.splits)
      ultimately show ?thesis
        using q1 q2 by (blast intro: quiet_trans)
    qed
  qed
qed

lemma migratePVC_outcome:
  assumes "migratePVC kubectl pvc w = (res, w')"
  shows "quiet w w' \<or>
         res = Inl ''failed to copy data: migration pod failed: migration pod failed'' \<and>
         podFailedLast pvc w w'"
proof -
  obtain res1 w1 where create: "createPVC kubectl pvc
      (Printf (''  Creating PVC '' @ PVCName pvc @ ''...'' @ newline) w) = (res1, w1)"
    by (cases "createPVC kubectl pvc
      (Printf (''  Creating PVC '' @ PVCName pvc @ ''...'' @ newline) w)")
  from quiet_createPVC [OF create] have q1: "quiet w w1" by simp
  show ?thesis
  proof (cases res1)
    case (Inl e)
    with assms create have "w' = w1" by (simp add: migratePVC_def)
    with q1 show ?thesis by simp
  next
    case (Inr u)
    obtain res2 w2 where bound: "waitForPVCBound kubectl pvc
        (Printf (''  Waiting for PVC to be bound...'' @ newline) w1) = (res2, w2)"
      by (cases "waitForPVCBound kubectl pvc
        (Printf (''  Waiting for PVC to be bound...'' @ newline) w1)")
    from quiet_waitForPVCBound [OF bound] have q2: "quiet w1 w2" by simp
    show ?thesis
    proof (cases res2)
      case (Inl e)
      with assms create \<open>res1 = Inr u\<close> bound have "w' = w2" by (simp add: migratePVC_def)
      with q1 q2 show ?thesis by (blast intro: quiet_trans)
    next
      case r2: (Inr u')
      show ?thesis
      proof (cases "MatchedVolume pvc")
        case None
        with assms create \<open>res1 = Inr u\<close> bound r2 have "w' = w2"
          by (simp add: migratePVC_def)
        with q1 q2 show ?thesis by (blast intro: quiet_trans)
      next
        case (Some volume)
        obtain res3 w3 where copy: "copyData kubectl pvc
            (Printf (''  Copying data from Docker volume '' @ Name volume @ ''...'' @ newline) w2)
            = (res3, w3)"
          by (cases "copyData kubectl pvc
            (Printf (''  Copying data from Docker volume '' @ Name volume @ ''...'' @ newline) w2)")
        have r: "w' = w3" "res = (case res3 of Inl e \<Rightarrow> Inl (''failed to copy data: '' @ e)
            | Inr u \<Rightarrow> Inr ())"
          using assms create \<open>res1 = Inr u\<close> bound r2 Some copy
          by (auto simp: migratePVC_def split: sum.splits)
        from copyData_outcome [OF copy] show ?thesis
        proof
          assume "quiet (Printf (''  Copying data from Docker volume '' @ Name volume @ ''...''
            @ newline) w2) w3"
          with q1 q2 r(1) show ?thesis by (auto intro: quiet_trans)
        next
          assume a: "res3 = Inl ''migration pod failed: migration pod failed'' \<and>
            podFailedLast pvc (Printf (''  Copying data from Docker volume '' @ Name volume
              @ ''...'' @ newline) w2) w3"
          then have "podFailedLast pvc w2 w3" by simp
          with q1 q2 have "podFailedLast pvc w w3"
            by (blast intro: quiet_trans quiet_podFailedLast)
          with a r show ?thesis by simp
        qed
      qed
    qed
  qed
qed


lemma migrateFrom_outcome:
  assumes "migrateFrom kubectl i n pvcs w = (res, w')"
  shows "quiet w w' \<or>
         (\<exists>pvc\<in>set pvcs. MatchedVolume pvc \<noteq> None \<and>
            res = Inl (''migration failed for PVC '' @ PVCName pvc
              @ '': failed to copy data: migration pod failed: migration pod failed'') \<and>
            podFailedLast pvc w w' \<and>
            suffix (crossMark @ '' Failed to migrate '' @ PVCName pvc
              @ '': failed to copy data: migration pod failed: migration pod failed'' @ newline)
              (stdout w'))"
  using assms
proof (induction pvcs arbitrary: i w)
  case Nil
  then show ?case by simp
next
  case (Cons pvc pvcs)
  show ?case
  proof (cases "MatchedVolume pvc = None")
    case True
    with Cons.prems have "migrateFrom kubectl (i + 1) n pvcs
        (Printf (''Skipping '' @ PVCName pvc @ '' (no volume selected)'' @ newline) w) = (res, w')"
      by simp
    from Cons.IH [OF this] show ?thesis by auto
  next
    case False
    obtain res1 w1 where mig: "migratePVC kubectl pvc
        (Printf (newline @ ''['' @ itoa (i + 1) @ ''/'' @ itoa n @ ''] Migrating PVC: ''
           @ PVCName pvc @ newline) w) = (res1, w1)"
      by (cases "migratePVC kubectl pvc
        (Printf (newline @ ''['' @ itoa (i + 1) @ ''/'' @ itoa n @ ''] Migrating PVC: ''
           @ PVCName pvc @ newline) w)")
    show ?thesis
    proof (cases res1)
      case (Inl e)
      with Cons.prems False mig have r: "res = Inl (''migration failed for PVC '' @ PVCName pvc
          @ '': '' @ e)"
        "w' = Printf (crossMark @ '' Failed to migrate '' @ PVCName pvc @ '': '' @ e @ newline) w1"
        by simp_all
      from migratePVC_outcome [OF mig] show ?thesis
      proof
        assume "quiet (Printf (newline @ ''['' @ itoa (i + 1) @ ''/'' @ itoa n
          @ ''] Migrating PVC: '' @ PVCName pvc @ newline) w) w1"
        with r(2) show ?thesis by simp
      next
        assume a: "res1 = Inl ''failed to copy data: migration pod failed: migration pod failed''
          \<and> podFailedLast pvc (Printf (newline @ ''['' @ itoa (i + 1) @ ''/'' @ itoa n
          @ ''] Migrating PVC: '' @ PVCName pvc @ newline) w) w1"
        with Inl have e: "e = ''failed to copy data: migration pod failed: migration pod failed''"
          by simp
        have "suffix (crossMark @ '' Failed to migrate '' @ PVCName pvc
              @ '': failed to copy data: migration pod failed: migration pod failed'' @ newline)
              (stdout w')"
          unfolding r(2) e by (simp add: suffix_def)
        moreover have "podFailedLast pvc w w'"
          using a r(2) by simp
        moreover have "res = Inl (''migration failed for PVC '' @ PVCName pvc
              @ '': failed to copy data: migration pod failed: migration pod failed'')"
          unfolding r(1) e by simp
        ultimately show ?thesis using False by auto
      qed
    next
      case (Inr u)
      with Cons.prems False mig have rec: "migrateFrom kubectl (i + 1) n pvcs
          (Printf (checkMark @ '' Successfully migrated '' @ PVCName pvc @ newline) w1) = (res, w')"
        by simp
      from migratePVC_outcome [OF mig] Inr have q: "quiet w w1" by auto
      from Cons.IH [OF rec] show ?thesis
      proof
        assume "quiet (Printf (checkMark @ '' Successfully migrated '' @ PVCName pvc @ newline) w1) w'"
        with q show ?thesis by (auto intro: quiet_trans)
      next
        assume "\<exists>p\<in>set pvcs. MatchedVolume p \<noteq> None \<and>
            res = Inl (''migration failed for PVC '' @ PVCName p
              @ '': failed to copy data: migration pod failed: migration pod failed'') \<and>
            podFailedLast p (Printf (checkMark @ '' Successfully migrated '' @ PVCName pvc
              @ newline) w1) w' \<and>
            suffix (crossMark @ '' Failed to migrate '' @ PVCName p
              @ '': failed to copy data: migration pod failed: migration pod failed'' @ newline)
              (stdout w')"
        then obtain p where p: "p \<in> set pvcs" "MatchedVolume p \<noteq> None"
            "res = Inl (''migration failed for PVC '' @ PVCName p
              @ '': failed to copy data: migration pod failed: migration pod failed'')"
            "podFailedLast p w1 w'"
            "suffix (crossMark @ '' Failed to migrate '' @ PVCName p
              @ '': failed to copy data: migration pod failed: migration pod failed'' @ newline)
              (stdout w')"
          by auto
        from quiet_podFailedLast [OF q p(4)] p show ?thesis by auto
      qed
    qed
  qed
qed

lemma waitForPodCompletion_failed:
  assumes "waitForPodCompletion kubectl podName ns w = (res, w')"
    and "ev \<in> set (drop (length (trace w)) (trace w'))" and "reports ''Failed'' ev"
  shows "res = Inl ''migration pod failed'' \<and> last (trace w') = ev"
proof -
  from podLoop_trace [OF assms(1) [unfolded waitForPodCompletion_def]]
  obtain evs where evs: "trace w' = trace w @ evs"
    "\<not> list_ex (reports ''Failed'') (butlast evs)"
    "case res of
       Inr u \<Rightarrow> evs \<noteq> [] \<and> reports ''Succeeded'' (last evs)
     | Inl e \<Rightarrow>
         (e = ''migration pod failed'' \<and> evs \<noteq> [] \<and> reports ''Failed'' (last evs)) \<or>
         (e = ''timeout waiting for pod '' @ podName @ '' to complete'' \<and>
          clock w + 10 * minute \<le> clock w' \<and>
          \<not> list_ex (reports ''Succeeded'') evs \<and> \<not> list_ex (reports ''Failed'') evs)"
    by blast
  from assms(2) evs(1) have mem: "ev \<in> set evs" by simp
  then have ne: "evs \<noteq> []" by auto
  then have split: "evs = butlast evs @ [last evs]" by simp
  from mem evs(2) assms(3) have "ev \<notin> set (butlast evs)"
    by (auto simp: list_ex_iff)
  with mem split have l: "last evs = ev"
    by (metis Un_iff empty_iff empty_set set_ConsD set_append)
  with evs(3) assms(3) mem have "res = Inl ''migration pod failed''"
    by (cases res; cases ev) (auto simp: list_ex_iff)
  moreover from l ne evs(1) have "last (trace w') = ev" by simp
  ultimately show ?thesis by simp
qed

lemma podFailedLastE:
  assumes "podFailedLast pvc w w'"
  obtains evs podName r where
    "trace w' = trace w @ evs @ [Exec (GetPodPhase podName (Namespace pvc)) r]"
    "prefix (''migration-'' @ PVCName pvc @ ''-'') podName"
    "phaseOf r = Some ''Failed''" "\<not> list_ex podFailed evs"
proof -
  from assms obtain new where new: "trace w' = trace w @ new"
    by (auto simp: podFailedLast_def prefix_def)
  with assms obtain podName r before where
    "rev new = Exec (GetPodPhase podName (Namespace pvc)) r # before"
    "prefix (''migration-'' @ PVCName pvc @ ''-'') podName"
    "phaseOf r = Some ''Failed''" "\<not> list_ex podFailed before"
    by (auto simp: podFailedLast_def split: list.splits event.splits call.splits)
  moreover from this have "new = rev before @ [Exec (GetPodPhase podName (Namespace pvc)) r]"
    by (metis rev.simps(2) rev_rev_ident)
  ultimately show ?thesis
    using new that [of "rev before" podName r] by (simp add: list_ex_iff)
qed

text \<open>
  Claim C1. A poll of the worker pod that reports \<open>Failed\<close> makes
  \<open>waitForPodCompletion\<close> return the error \<open>migration pod failed\<close>, and it is the
  last thing that function does. When such a poll happens during \<open>StartMigration\<close>,
  it is the poll of the pod of a PVC of the list that has a matched volume; the run
  returns the error with the name of that PVC in front; the poll is the last event of
  the whole run, so that no log is fetched, no pod is deleted and nothing is done for
  the PVCs behind it; and the last thing printed is the failure of that PVC.
\<close>

theorem failed_pod_aborts_run:
  assumes "StartMigration kubectl pvcs w = (res, w')"
    and "ev \<in> set (drop (length (trace w)) (trace w'))" and "podFailed ev"
  shows "(\<forall>podName ns w0 res0 w0' ev0.
            waitForPodCompletion kubectl podName ns w0 = (res0, w0') \<and>
            ev0 \<in> set (drop (length (trace w0)) (trace w0')) \<and> reports ''Failed'' ev0 \<longrightarrow>
            res0 = Inl ''migration pod failed'' \<and> last (trace w0') = ev0) \<and>
         (\<exists>pvc podName r evs.
           pvc \<in> set pvcs \<and> MatchedVolume pvc \<noteq> None \<and>
           ev = Exec (GetPodPhase podName (Namespace pvc)) r \<and>
           prefix (''migration-'' @ PVCName pvc @ ''-'') podName \<and>
           trace w' = trace w @ evs @ [ev] \<and> \<not> list_ex podFailed evs \<and>
           res = Inl (''migration failed for PVC '' @ PVCName pvc
             @ '': failed to copy data: migration pod failed: migration pod failed'') \<and>
           suffix (crossMark @ '' Failed to migrate '' @ PVCName pvc
             @ '': failed to copy data: migration pod failed: migration pod failed'' @ newline)
             (stdout w'))"
proof (rule conjI)
  show "\<forall>podName ns w0 res0 w0' ev0.
            waitForPodCompletion kubectl podName ns w0 = (res0, w0') \<and>
            ev0 \<in> set (drop (length (trace w0)) (trace w0')) \<and> reports ''Failed'' ev0 \<longrightarrow>
            res0 = Inl ''migration pod failed'' \<and> last (trace w0') = ev0"
    using waitForPodCompletion_failed by blast
next
  obtain res0 w0 where mf: "migrateFrom kubectl 0 (length pvcs) pvcs
      (Printf (newline @ ''=== Starting Migration Process ==='' @ newline) w) = (res0, w0)"
    by (cases "migrateFrom kubectl 0 (length pvcs) pvcs
      (Printf (newline @ ''=== Starting Migration Process ==='' @ newline) w)")
  from assms(1) mf have tr: "trace w' = trace w0"
    by (auto simp: StartMigration_def split: sum.splits)
  have "\<not> quiet w w0"
    using assms(2,3) tr by (auto simp: quiet_def list_ex_iff)
  with migrateFrom_outcome [OF mf] obtain pvc where
    pvc: "pvc \<in> set pvcs" "MatchedVolume pvc \<noteq> None"
      "res0 = Inl (''migration failed for PVC '' @ PVCName pvc
         @ '': failed to copy data: migration pod failed: migration pod failed'')"
      "podFailedLast pvc w w0"
      "suffix (crossMark @ '' Failed to migrate '' @ PVCName pvc
         @ '': failed to copy data: migration pod failed: migration pod failed'' @ newline)
         (stdout w0)"
    by auto
  from assms(1) mf pvc(3) have eq: "res = res0" "w' = w0"
    by (simp_all add: StartMigration_def)
  from pvc(4) obtain evs podName r where
    t: "trace w0 = trace w @ evs @ [Exec (GetPodPhase podName (Namespace pvc)) r]"
      "prefix (''migration-'' @ PVCName pvc @ ''-'') podName"
      "phaseOf r = Some ''Failed''" "\<not> list_ex podFailed evs"
    by (rule podFailedLastE)
  from assms(2,3) t(1,4) eq(2) have "ev = Exec (GetPodPhase podName (Namespace pvc)) r"
    by (auto simp: list_ex_iff)
  with pvc t eq show "\<exists>pvc podName r evs.
           pvc \<in> set pvcs \<and> MatchedVolume pvc \<noteq> None \<and>
           ev = Exec (GetPodPhase podName (Namespace pvc)) r \<and>
           prefix (''migration-'' @ PVCName pvc @ ''-'') podName \<and>
           trace w' = trace w @ evs @ [ev] \<and> \<not> list_ex podFailed evs \<and>
           res = Inl (''migration failed for PVC '' @ PVCName pvc
             @ '': failed to copy data: migration pod failed: migration pod failed'') \<and>
           suffix (crossMark @ '' Failed to migrate '' @ PVCName pvc
             @ '': failed to copy data: migration pod failed: migration pod failed'' @ newline)
             (stdout w')"
    by blast
qed


lemmas eval_migration =
  StartMigration_def migratePVC_def createPVC_def waitForPVCBound_def pvcBoundLoop.simps
  copyData_def waitForPodCompletion_def podLoop.simps showPodLogs_def deletePod_def
  itoa.simps eval_engine

theorem failed_pod_aborts_run_witness:
  "fst (StartMigration examplePodFails examplePVCs exampleStart) =
     Inl ''migration failed for PVC svc-app-data: failed to copy data: migration pod failed: migration pod failed'' \<and>
   trace (snd (StartMigration examplePodFails examplePVCs exampleStart)) =
     [Exec (Apply (PVCManifest ''svc-app-data'' ''default'' []))
        \<lparr>cmdOutput = ''configured'', cmdErr = None, cmdDuration = 300\<rparr>,
      Exec (GetPVCPhase ''svc-app-data'' ''default'')
        \<lparr>cmdOutput = ''Bound'', cmdErr = None, cmdDuration = 200\<rparr>,
      Exec (Apply (PodManifest ''migration-svc-app-data-0'' ''default''
          ''/var/lib/docker/volumes/app_data/_data'' ''svc-app-data''))
        \<lparr>cmdOutput = ''configured'', cmdErr = None, cmdDuration = 300\<rparr>,
      Exec (GetPodPhase ''migration-svc-app-data-0'' ''default'')
        \<lparr>cmdOutput = ''Running'', cmdErr = None, cmdDuration = 200\<rparr>,
      Sleep 5000,
      Exec (GetPodPhase ''migration-svc-app-data-0'' ''default'')
        \<lparr>cmdOutput = ''Failed'', cmdErr = None, cmdDuration = 200\<rparr>] \<and>
   podFailed (Exec (GetPodPhase ''migration-svc-app-data-0'' ''default'')
        \<lparr>cmdOutput = ''Failed'', cmdErr = None, cmdDuration = 200\<rparr>)"
proof -
  let ?ev = "Exec (GetPodPhase ''migration-svc-app-data-0'' ''default'')
        \<lparr>cmdOutput = ''Failed'', cmdErr = None, cmdDuration = 200\<rparr>"
  have r: "fst (StartMigration examplePodFails examplePVCs exampleStart) =
     Inl ''migration failed for PVC svc-app-data: failed to copy data: migration pod failed: migration pod failed''"
    by (simp add: eval_migration examplePodFails_def examplePVCs_def exampleStart_def
        exampleAppData_def)
  have t: "trace (snd (StartMigration examplePodFails examplePVCs exampleStart)) =
     [Exec (Apply (PVCManifest ''svc-app-data'' ''default'' []))
        \<lparr>cmdOutput = ''configured'', cmdErr = None, cmdDuration = 300\<rparr>,
      Exec (GetPVCPhase ''svc-app-data'' ''default'')
        \<lparr>cmdOutput = ''Bound'', cmdErr = None, cmdDuration = 200\<rparr>,
      Exec (Apply (PodManifest ''migration-svc-app-data-0'' ''default''
          ''/var/lib/docker/volumes/app_data/_data'' ''svc-app-data''))
        \<lparr>cmdOutput = ''configured'', cmdErr = None, cmdDuration = 300\<rparr>,
      Exec (GetPodPhase ''migration-svc-app-data-0'' ''default'')
        \<lparr>cmdOutput = ''Running'', cmdErr = None, cmdDuration = 200\<rparr>,
      Sleep 5000, ?ev]"
    by (simp add: eval_migration examplePodFails_def examplePVCs_def exampleStart_def
        exampleAppData_def)
  have h1: "StartMigration examplePodFails examplePVCs exampleStart =
      (fst (StartMigration examplePodFails examplePVCs exampleStart),
       snd (StartMigration examplePodFails examplePVCs exampleStart))"
    by simp
  have h2: "?ev \<in> set (drop (length (trace exampleStart))
      (trace (snd (StartMigration examplePodFails examplePVCs exampleStart))))"
    unfolding t by (simp add: exampleStart_def)
  have h3: "podFailed ?ev"
    by (simp add: phaseOf_def TrimSpace_def isSpace_def)
  from failed_pod_aborts_run [OF h1 h2 h3] r t h3 show ?thesis
    by simp
qed

lemma sameButOutput_refl [simp]: "sameButOutput w w"
  by (simp add: sameButOutput_def)

lemma sameButOutput_Printf [simp]:
  "sameButOutput (Printf s w) v = sameButOutput w v"
  "sameButOutput w (Printf s v) = sameButOutput w v"
  by (simp_all add: sameButOutput_def)

lemma sameButOutput_sleep: "sameButOutput w v \<Longrightarrow> sameButOutput (sleep d w) (sleep d v)"
  by (simp add: sameButOutput_def)

lemma sameButOutput_run:
  assumes "sameButOutput w v" and "run kubectl c w = (r, w1)"
  shows "\<exists>v1. run kubectl c v = (r, v1) \<and> sameButOutput w1 v1"
  using assms by (auto simp: sameButOutput_def run_def Let_def)

lemma sameButOutput_stdoutfold:
  "sameButOutput (fold (\<lambda>line. if P line then Printf (f line) else (\<lambda>w. w)) ls w) v
     = sameButOutput w v"
  by (induction ls arbitrary: w) auto

lemma pvcBoundLoop_sameButOutput:
  assumes "sameButOutput w v" and "pvcBoundLoop kubectl pvc deadline w = (res, w')"
  shows "\<exists>v'. pvcBoundLoop kubectl pvc deadline v = (res, v') \<and> sameButOutput w' v'"
  using assms
proof (induction kubectl pvc deadline w arbitrary: v rule: pvcBoundLoop.induct)
  case (1 kubectl pvc deadline w)
  let ?c = "GetPVCPhase (PVCName pvc) (Namespace pvc)"
  from "1.prems"(1) have clk: "clock v = clock w" by (simp add: sameButOutput_def)
  show ?case
  proof (cases "deadline \<le> clock w")
    case True
    with "1.prems" clk show ?thesis
      by (simp add: pvcBoundLoop.simps [of kubectl pvc deadline w]
          pvcBoundLoop.simps [of kubectl pvc deadline v])
  next
    case False
    obtain r w1 where run: "run kubectl ?c w = (r, w1)"
      by (cases "run kubectl ?c w")
    from sameButOutput_run [OF "1.prems"(1) run] obtain v1 where
      runv: "run kubectl ?c v = (r, v1)" and s1: "sameButOutput w1 v1"
      by blast
    show ?thesis
    proof (cases "cmdErr r")
      case (Some e)
      from "1.prems"(2) False run Some
      have rec: "pvcBoundLoop kubectl pvc deadline (sleep (5 * second) w1) = (res, w')"
        by (simp add: pvcBoundLoop.simps [of kubectl pvc deadline w])
      from "1.IH"(2) [OF False run [symmetric] Some sameButOutput_sleep [OF s1] rec]
      show ?thesis
        using False clk runv Some
        by (simp add: pvcBoundLoop.simps [of kubectl pvc deadline v])
    next
      case None
      show ?thesis
      proof (cases "TrimSpace (cmdOutput r) = ''Bound''")
        case True
        with "1.prems"(2) False run None have "res = Inr ()" "w' = w1"
          by (simp_all add: pvcBoundLoop.simps [of kubectl pvc deadline w])
        with s1 False clk runv None True show ?thesis
          by (simp add: pvcBoundLoop.simps [of kubectl pvc deadline v])
      next
        case nb: False
        from "1.prems"(2) False run None nb
        have rec: "pvcBoundLoop kubectl pvc deadline
            (sleep (5 * second)
               (Printf (''    PVC status: '' @ TrimSpace (cmdOutput r) @ newline) w1)) = (res, w')"
          by (simp add: pvcBoundLoop.simps [of kubectl pvc deadline w] Let_def)
        have "sameButOutput
            (sleep (5 * second)
               (Printf (''    PVC status: '' @ TrimSpace (cmdOutput r) @ newline) w1))
            (sleep (5 * second)
               (Printf (''    PVC status: '' @ TrimSpace (cmdOutput r) @ newline) v1))"
          using s1 by (intro sameButOutput_sleep) simp
        from "1.IH"(1) [OF False run [symmetric] None refl nb this rec]
        show ?thesis
          using False clk runv None nb
          by (simp add: pvcBoundLoop.simps [of kubectl pvc deadline v] Let_def)
      qed
    qed
  qed
qed

lemma podLoop_sameButOutput:
  assumes "sameButOutput w v" and "podLoop kubectl podName ns deadline w = (res, w')"
  shows "\<exists>v'. podLoop kubectl podName ns deadline v = (res, v') \<and> sameButOutput w' v'"
  using assms
proof (induction kubectl podName ns deadline w arbitrary: v rule: podLoop.induct)
  case (1 kubectl podName ns deadline w)
  let ?c = "GetPodPhase podName ns"
  from "1.prems"(1) have clk: "clock v = clock w" by (simp add: sameButOutput_def)
  show ?case
  proof (cases "deadline \<le> clock w")
    case True
    with "1.prems" clk show ?thesis
      by (simp add: podLoop.simps [of kubectl podName ns deadline w]
          podLoop.simps [of kubectl podName ns deadline v])
  next
    case False
    obtain r w1 where run: "run kubectl ?c w = (r, w1)"
      by (cases "run kubectl ?c w")
    from sameButOutput_run [OF "1.prems"(1) run] obtain v1 where
      runv: "run kubectl ?c v = (r, v1)" and s1: "sameButOutput w1 v1"
      by blast
    show ?thesis
    proof (cases "cmdErr r")
      case (Some e)
      from "1.prems"(2) False run Some
      have rec: "podLoop kubectl podName ns deadline (sleep (5 * second) w1) = (res, w')"
        by (simp add: podLoop.simps [of kubectl podName ns deadline w])
      from "1.IH"(2) [OF False run [symmetric] Some sameButOutput_sleep [OF s1] rec]
      show ?thesis
        using False clk runv Some
        by (simp add: podLoop.simps [of kubectl podName ns deadline v])
    next
      case None
      show ?thesis
      proof (cases "TrimSpace (cmdOutput r) = ''Succeeded'' \<or> TrimSpace (cmdOutput r) = ''Failed''")
        case True
        with "1.prems"(2) False run None have "w' = w1"
          "res = (if TrimSpace (cmdOutput r) = ''Succeeded'' then Inr ()
                  else Inl ''migration pod failed'')"
          by (auto simp: podLoop.simps [of kubectl podName ns deadline w])
        with s1 False clk runv None True show ?thesis
          by (auto simp: podLoop.simps [of kubectl podName ns deadline v])
      next
        case nb: False
        from "1.prems"(2) False run None nb
        have rec: "podLoop kubectl podName ns deadline
            (sleep (5 * second)
               (Printf (''    Pod status: '' @ TrimSpace (cmdOutput r) @ newline) w1)) = (res, w')"
          by (simp add: podLoop.simps [of kubectl podName ns deadline w] Let_def)
        have s2: "sameButOutput
            (sleep (5 * second)
               (Printf (''    Pod status: '' @ TrimSpace (cmdOutput r) @ newline) w1))
            (sleep (5 * second)
               (Printf (''    Pod status: '' @ TrimSpace (cmdOutput r) @ newline) v1))"
          using s1 by (intro sameButOutput_sleep) simp
        from nb have n1: "TrimSpace (cmdOutput r) \<noteq> ''Succeeded''"
          and n2: "TrimSpace (cmdOutput r) \<noteq> ''Failed''" by simp_all
        from "1.IH"(1) [OF False run [symmetric] None refl n1 n2 s2 rec]
        show ?thesis
          using False clk runv None nb
          by (simp add: podLoop.simps [of kubectl podName ns deadline v] Let_def)
      qed
    qed
  qed
qed


lemma createPVC_sameButOutput:
  assumes "sameButOutput w v" and "createPVC kubectl pvc w = (res, w')"
  shows "\<exists>v'. createPVC kubectl pvc v = (res, v') \<and> sameButOutput w' v'"
proof -
  let ?c = "Apply (PVCManifest (PVCName pvc) (Namespace pvc) (NewSize pvc))"
  obtain r w1 where run: "run kubectl ?c w = (r, w1)"
    by (cases "run kubectl ?c w")
  from sameButOutput_run [OF assms(1) run] obtain v1 where
    "run kubectl ?c v = (r, v1)" "sameButOutput w1 v1"
    by blast
  with assms(2) run show ?thesis
    by (auto simp: createPVC_def split: option.splits)
qed

lemma deletePod_sameButOutput:
  assumes "sameButOutput w v" and "deletePod kubectl podName ns w = (res, w')"
  shows "\<exists>v'. deletePod kubectl podName ns v = (res, v') \<and> sameButOutput w' v'"
proof -
  obtain r w1 where run: "run kubectl (DeletePod podName ns) w = (r, w1)"
    by (cases "run kubectl (DeletePod podName ns) w")
  from sameButOutput_run [OF assms(1) run] obtain v1 where
    "run kubectl (DeletePod podName ns) v = (r, v1)" "sameButOutput w1 v1"
    by blast
  with assms(2) run show ?thesis
    by (auto simp: deletePod_def split: option.splits)
qed

lemma showPodLogs_sameButOutput:
  assumes "sameButOutput w v" and "showPodLogs kubectl podName ns w = (res, w')"
  shows "\<exists>v'. showPodLogs kubectl podName ns v = (res, v') \<and> sameButOutput w' v'"
proof -
  obtain r w1 where run: "run kubectl (Logs podName ns) w = (r, w1)"
    by (cases "run kubectl (Logs podName ns) w")
  from sameButOutput_run [OF assms(1) run] obtain v1 where
    v: "run kubectl (Logs podName ns) v = (r, v1)" "sameButOutput w1 v1"
    by blast
  have "sameButOutput
      (fold (\<lambda>line. if TrimSpace line \<noteq> [] then Printf (''    '' @ line @ newline)
                      else (\<lambda>w. w)) ls w1)
      (fold (\<lambda>line. if TrimSpace line \<noteq> [] then Printf (''    '' @ line @ newline)
                      else (\<lambda>w. w)) ls v1)" for ls
    using v(2)
  proof (induction ls arbitrary: w1 v1)
    case Nil
    then show ?case by simp
  next
    case (Cons l ls)
    then show ?case by simp
  qed
  with assms(2) run v show ?thesis
    by (auto simp: showPodLogs_def split: option.splits)
qed

lemma waitForPVCBound_sameButOutput:
  assumes "sameButOutput w v" and "waitForPVCBound kubectl pvc w = (res, w')"
  shows "\<exists>v'. waitForPVCBound kubectl pvc v = (res, v') \<and> sameButOutput w' v'"
proof -
  from assms(1) have "clock v = clock w" by (simp add: sameButOutput_def)
  with pvcBoundLoop_sameButOutput [OF assms(1) assms(2) [unfolded waitForPVCBound_def]]
  show ?thesis by (simp add: waitForPVCBound_def)
qed

lemma waitForPodCompletion_sameButOutput:
  assumes "sameButOutput w v" and "waitForPodCompletion kubectl podName ns w = (res, w')"
  shows "\<exists>v'. waitForPodCompletion kubectl podName ns v = (res, v') \<and> sameButOutput w' v'"
proof -
  from assms(1) have "clock v = clock w" by (simp add: sameButOutput_def)
  with podLoop_sameButOutput [OF assms(1) assms(2) [unfolded waitForPodCompletion_def]]
  show ?thesis by (simp add: waitForPodCompletion_def)
qed

lemma copyData_sameButOutput:
  assumes "sameButOutput w v" and "copyData kubectl pvc w = (res, w')"
  shows "\<exists>v'. copyData kubectl pvc v = (res, v') \<and> sameButOutput w' v'"
proof (cases "MatchedVolume pvc")
  case None
  with assms show ?thesis by (auto simp: copyData_def)
next
  case (Some volume)
  from assms(1) have clk: "clock v = clock w" by (simp add: sameButOutput_def)
  define podName where "podName = ''migration-'' @ PVCName pvc @ ''-'' @ itoa (clock w div 1000)"
  let ?apply = "Apply (PodManifest podName (Namespace pvc) (Mountpoint volume) (PVCName pvc))"
  obtain r w1 where run: "run kubectl ?apply w = (r, w1)"
    by (cases "run kubectl ?apply w")
  from sameButOutput_run [OF assms(1) run] obtain v1 where
    runv: "run kubectl ?apply v = (r, v1)" and s1: "sameButOutput w1 v1"
    by blast
  show ?thesis
  proof (cases "cmdErr r")
    case (Some e)
    with assms(2) \<open>MatchedVolume pvc = Some volume\<close> run runv s1 clk show ?thesis
      by (auto simp: copyData_def podName_def Let_def)
  next
    case None
    let ?msg = "''  Waiting for migration pod to complete...'' @ newline"
    obtain res2 w2 where wait:
      "waitForPodCompletion kubectl podName (Namespace pvc) (Printf ?msg w1) = (res2, w2)"
      by (cases "waitForPodCompletion kubectl podName (Namespace pvc) (Printf ?msg w1)")
    have "sameButOutput (Printf ?msg w1) (Printf ?msg v1)" using s1 by simp
    from waitForPodCompletion_sameButOutput [OF this wait] obtain v2 where
      waitv: "waitForPodCompletion kubectl podName (Namespace pvc) (Printf ?msg v1) = (res2, v2)"
      and s2: "sameButOutput w2 v2"
      by blast
    show ?thesis
    proof (cases res2)
      case (Inl e)
      with assms(2) \<open>MatchedVolume pvc = Some volume\<close> run runv None wait waitv s2 clk
      show ?thesis
        by (auto simp: copyData_def podName_def Let_def)
    next
      case (Inr u)
      let ?lmsg = "''  Migration pod logs:'' @ newline"
      obtain res3 w3 where logs:
        "showPodLogs kubectl podName (Namespace pvc) (Printf ?lmsg w2) = (res3, w3)"
        by (cases "showPodLogs kubectl podName (Namespace pvc) (Printf ?lmsg w2)")
      have "sameButOutput (Printf ?lmsg w2) (Printf ?lmsg v2)" using s2 by simp
      from showPodLogs_sameButOutput [OF this logs] obtain v3 where
        logsv: "showPodLogs kubectl podName (Namespace pvc) (Printf ?lmsg v2) = (res3, v3)"
        and s3: "sameButOutput w3 v3"
        by blast
      define w3' where "w3' =
        (case res3 of
           Inl e \<Rightarrow> Printf (''    Warning: Could not retrieve pod logs: '' @ e @ newline) w3
         | Inr u' \<Rightarrow> w3)"
      define v3' where "v3' =
        (case res3 of
           Inl e \<Rightarrow> Printf (''    Warning: Could not retrieve pod logs: '' @ e @ newline) v3
         | Inr u' \<Rightarrow> v3)"
      have s3': "sameButOutput w3' v3'"
        using s3 by (simp add: w3'_def v3'_def split: sum.splits)
      obtain res4 w4 where del: "deletePod kubectl podName (Namespace pvc) w3' = (res4, w4)"
        by (cases "deletePod kubectl podName (Namespace pvc) w3'")
      from deletePod_sameButOutput [OF s3' del] obtain v4 where
        delv: "deletePod kubectl podName (Namespace pvc) v3' = (res4, v4)"
        and s4: "sameButOutput w4 v4"
        by blast
      define w4' where "w4' =
        (case res4 of
           Inl e \<Rightarrow> Printf (''    Warning: Could not delete migration pod: '' @ e @ newline) w4
         | Inr u' \<Rightarrow> w4)"
      define v4' where "v4' =
        (case res4 of
           Inl e \<Rightarrow> Printf (''    Warning: Could not delete migration pod: '' @ e @ newline) v4
         | Inr u' \<Rightarrow> v4)"
      have s4': "sameButOutput w4' v4'"
        using s4 by (simp add: w4'_def v4'_def split: sum.splits)
      have "copyData kubectl pvc w = (Inr (), w4')"
        using \<open>MatchedVolume pvc = Some volume\<close> run None wait Inr logs del
        by (simp add: copyData_def podName_def Let_def w3'_def w4'_def)
      moreover have "copyData kubectl pvc v = (Inr (), v4')"
        using \<open>MatchedVolume pvc = Some volume\<close> runv None waitv Inr logsv delv clk
        by (simp add: copyData_def podName_def Let_def v3'_def v4'_def)
      ultimately show ?thesis
        using assms(2) s4' by auto
    qed
  qed
qed

lemma migratePVC_sameButOutput:
  assumes "sameButOutput w v" and "migratePVC kubectl pvc w = (res, w')"
  shows "\<exists>v'. migratePVC kubectl pvc v = (res, v') \<and> sameButOutput w' v'"
proof -
  let ?m1 = "''  Creating PVC '' @ PVCName pvc @ ''...'' @ newline"
  obtain res1 w1 where create: "createPVC kubectl pvc (Printf ?m1 w) = (res1, w1)"
    by (cases "createPVC kubectl pvc (Printf ?m1 w)")
  have "sameButOutput (Printf ?m1 w) (Printf ?m1 v)" using assms(1) by simp
  from createPVC_sameButOutput [OF this create] obtain v1 where
    createv: "createPVC kubectl pvc (Printf ?m1 v) = (res1, v1)" and s1: "sameButOutput w1 v1"
    by blast
  show ?thesis
  proof (cases res1)
    case (Inl e)
    with assms(2) create createv s1 show ?thesis by (auto simp: migratePVC_def)
  next
    case (Inr u)
    let ?m2 = "''  Waiting for PVC to be bound...'' @ newline"
    obtain res2 w2 where bound: "waitForPVCBound kubectl pvc (Printf ?m2 w1) = (res2, w2)"
      by (cases "waitForPVCBound kubectl pvc (Printf ?m2 w1)")
    have "sameButOutput (Printf ?m2 w1) (Printf ?m2 v1)" using s1 by simp
    from waitForPVCBound_sameButOutput [OF this bound] obtain v2 where
      boundv: "waitForPVCBound kubectl pvc (Printf ?m2 v1) = (res2, v2)"
      and s2: "sameButOutput w2 v2"
      by blast
    show ?thesis
    proof (cases res2)
      case (Inl e)
      with assms(2) create createv \<open>res1 = Inr u\<close> bound boundv s2 show ?thesis
        by (auto simp: migratePVC_def)
    next
      case r2: (Inr u')
      show ?thesis
      proof (cases "MatchedVolume pvc")
        case None
        with assms(2) create createv \<open>res1 = Inr u\<close> bound boundv r2 s2 show ?thesis
          by (auto simp: migratePVC_def)
      next
        case (Some volume)
        let ?m3 = "''  Copying data from Docker volume '' @ Name volume @ ''...'' @ newline"
        obtain res3 w3 where copy: "copyData kubectl pvc (Printf ?m3 w2) = (res3, w3)"
          by (cases "copyData kubectl pvc (Printf ?m3 w2)")
        have "sameButOutput (Printf ?m3 w2) (Printf ?m3 v2)" using s2 by simp
        from copyData_sameButOutput [OF this copy] obtain v3 where
          copyv: "copyData kubectl pvc (Printf ?m3 v2) = (res3, v3)"
          and s3: "sameButOutput w3 v3"
          by blast
        from assms(2) create createv \<open>res1 = Inr u\<close> bound boundv r2 Some copy copyv s3
        show ?thesis
          by (auto simp: migratePVC_def split: sum.splits)
      qed
    qed
  qed
qed

lemma migrateFrom_sameButOutput:
  assumes "sameButOutput w v" and "migrateFrom kubectl i n pvcs w = (res, w')"
  shows "\<exists>v'. migrateFrom kubectl j m pvcs v = (res, v') \<and> sameButOutput w' v'"
  using assms
proof (induction pvcs arbitrary: i j w v)
  case Nil
  then show ?case by simp
next
  case (Cons pvc pvcs)
  show ?case
  proof (cases "MatchedVolume pvc = None")
    case True
    let ?m = "''Skipping '' @ PVCName pvc @ '' (no volume selected)'' @ newline"
    from Cons.prems(2) True have "migrateFrom kubectl (i + 1) n pvcs (Printf ?m w) = (res, w')"
      by simp
    moreover have "sameButOutput (Printf ?m w) (Printf ?m v)" using Cons.prems(1) by simp
    ultimately obtain v' where
      "migrateFrom kubectl (j + 1) m pvcs (Printf ?m v) = (res, v')" "sameButOutput w' v'"
      using Cons.IH by blast
    with True show ?thesis by simp
  next
    case False
    let ?mw = "newline @ ''['' @ itoa (i + 1) @ ''/'' @ itoa n @ ''] Migrating PVC: ''
      @ PVCName pvc @ newline"
    let ?mv = "newline @ ''['' @ itoa (j + 1) @ ''/'' @ itoa m @ ''] Migrating PVC: ''
      @ PVCName pvc @ newline"
    obtain res1 w1 where mig: "migratePVC kubectl pvc (Printf ?mw w) = (res1, w1)"
      by (cases "migratePVC kubectl pvc (Printf ?mw w)")
    have "sameButOutput (Printf ?mw w) (Printf ?mv v)" using Cons.prems(1) by simp
    from migratePVC_sameButOutput [OF this mig] obtain v1 where
      migv: "migratePVC kubectl pvc (Printf ?mv v) = (res1, v1)" and s1: "sameButOutput w1 v1"
      by blast
    show ?thesis
    proof (cases res1)
      case (Inl e)
      with Cons.prems(2) False mig migv s1 show ?thesis by auto
    next
      case (Inr u)
      let ?ok = "checkMark @ '' Successfully migrated '' @ PVCName pvc @ newline"
      from Cons.prems(2) False mig Inr
      have "migrateFrom kubectl (i + 1) n pvcs (Printf ?ok w1) = (res, w')" by simp
      moreover have "sameButOutput (Printf ?ok w1) (Printf ?ok v1)" using s1 by simp
      ultimately obtain v' where
        "migrateFrom kubectl (j + 1) m pvcs (Printf ?ok v1) = (res, v')" "sameButOutput w' v'"
        using Cons.IH by blast
      with False migv Inr show ?thesis by auto
    qed
  qed
qed


lemma dryRunFrom_append:
  "dryRunFrom i (xs @ ys) w = dryRunFrom (i + length xs) ys (dryRunFrom i xs w)"
  by (induction xs arbitrary: i w) (auto split: option.splits)

lemma dryRunFrom_effect:
  "\<exists>text. stdout (dryRunFrom i pvcs w) = stdout w @ text \<and>
     sameButOutput (dryRunFrom i pvcs w) w"
proof (induction pvcs arbitrary: i w)
  case Nil
  then show ?case by simp
next
  case (Cons pvc pvcs)
  show ?case
  proof (cases "MatchedVolume pvc")
    case None
    from Cons.IH [of "i + 1" "Printf (''['' @ itoa (i + 1) @ ''] SKIP: '' @ PVCName pvc
      @ '' (no volume selected)'' @ newline) w"]
    show ?thesis using None by auto
  next
    case (Some volume)
    from Cons.IH [of "i + 1" "Printf newline
               (Printf (''    Path: '' @ Mountpoint volume @ '' '' @ rightArrow @ '' PVC mount''
                  @ newline)
                  (Printf (''    Target: PVC '' @ Namespace pvc @ ''/'' @ PVCName pvc @ '' (''
                     @ NewSize pvc @ '')'' @ newline)
                     (Printf (''    Source: '' @ Name volume @ '' ('' @ SizeHuman volume @ '')''
                        @ newline)
                        (Printf (''['' @ itoa (i + 1) @ ''] MIGRATE: '' @ PVCName pvc @ newline)
                           w))))"]
    show ?thesis using Some by auto
  qed
qed

lemma migrateFrom_drop_unmatched:
  assumes "MatchedVolume pvc = None" and "sameButOutput w v"
    and "migrateFrom kubectl i n (pre @ pvc # post) w = (res, w')"
  shows "\<exists>v'. migrateFrom kubectl j m (pre @ post) v = (res, v') \<and> sameButOutput w' v'"
  using assms(2,3)
proof (induction pre arbitrary: i j w v)
  case Nil
  let ?m = "''Skipping '' @ PVCName pvc @ '' (no volume selected)'' @ newline"
  from Nil.prems(2) assms(1)
  have rec: "migrateFrom kubectl (i + 1) n post (Printf ?m w) = (res, w')"
    by simp
  have same: "sameButOutput (Printf ?m w) v" using Nil.prems(1) by simp
  from migrateFrom_sameButOutput [OF same rec] show ?case
    by simp
next
  case (Cons p pre)
  show ?case
  proof (cases "MatchedVolume p = None")
    case True
    let ?m = "''Skipping '' @ PVCName p @ '' (no volume selected)'' @ newline"
    from Cons.prems(2) True
    have "migrateFrom kubectl (i + 1) n (pre @ pvc # post) (Printf ?m w) = (res, w')"
      by simp
    moreover have "sameButOutput (Printf ?m w) (Printf ?m v)" using Cons.prems(1) by simp
    ultimately obtain v' where
      "migrateFrom kubectl (j + 1) m (pre @ post) (Printf ?m v) = (res, v')" "sameButOutput w' v'"
      using Cons.IH by blast
    with True show ?thesis by simp
  next
    case False
    let ?mw = "newline @ ''['' @ itoa (i + 1) @ ''/'' @ itoa n @ ''] Migrating PVC: ''
      @ PVCName p @ newline"
    let ?mv = "newline @ ''['' @ itoa (j + 1) @ ''/'' @ itoa m @ ''] Migrating PVC: ''
      @ PVCName p @ newline"
    obtain res1 w1 where mig: "migratePVC kubectl p (Printf ?mw w) = (res1, w1)"
      by (cases "migratePVC kubectl p (Printf ?mw w)")
    have "sameButOutput (Printf ?mw w) (Printf ?mv v)" using Cons.prems(1) by simp
    from migratePVC_sameButOutput [OF this mig] obtain v1 where
      migv: "migratePVC kubectl p (Printf ?mv v) = (res1, v1)" and s1: "sameButOutput w1 v1"
      by blast
    show ?thesis
    proof (cases res1)
      case (Inl e)
      with Cons.prems(2) False mig migv s1 show ?thesis by auto
    next
      case (Inr u)
      let ?ok = "checkMark @ '' Successfully migrated '' @ PVCName p @ newline"
      from Cons.prems(2) False mig Inr
      have "migrateFrom kubectl (i + 1) n (pre @ pvc # post) (Printf ?ok w1) = (res, w')"
        by simp
      moreover have "sameButOutput (Printf ?ok w1) (Printf ?ok v1)" using s1 by simp
      ultimately obtain v' where
        "migrateFrom kubectl (j + 1) m (pre @ post) (Printf ?ok v1) = (res, v')"
        "sameButOutput w' v'"
        using Cons.IH by blast
      with False migv Inr show ?thesis by auto
    qed
  qed
qed

lemma migrateFrom_all_unmatched:
  assumes "\<forall>p\<in>set pvcs. MatchedVolume p = None"
  shows "fst (migrateFrom kubectl i n pvcs w) = Inr () \<and>
         sameButOutput (snd (migrateFrom kubectl i n pvcs w)) w"
  using assms
proof (induction pvcs arbitrary: i w)
  case Nil
  then show ?case by simp
next
  case (Cons p pvcs)
  from Cons.prems have "MatchedVolume p = None" "\<forall>p\<in>set pvcs. MatchedVolume p = None"
    by simp_all
  with Cons.IH [of "i + 1" "Printf (''Skipping '' @ PVCName p @ '' (no volume selected)''
    @ newline) w"]
  show ?case by simp
qed

text \<open>
  Claim C6. For a PVC without a matched volume, at any place of the list: \<open>DryRun\<close>
  prints its \<open>SKIP\<close> line with its number, and changes nothing but the output;
  the loop of \<open>StartMigration\<close> only prints that it skips the PVC and goes on with
  the next one; the run returns the same result, and runs the same commands at the same
  times, as the run over the list without that PVC, so the PVC causes no \<open>kubectl\<close>
  call and no failure; and a list of unmatched PVCs only gives success with no command
  run at all.
\<close>

theorem unmatched_is_skipped:
  assumes "MatchedVolume pvc = None"
  shows "(\<exists>before after.
            stdout (DryRun (pre @ pvc # post) w) =
              stdout w @ before @ ''['' @ itoa (length pre + 1) @ ''] SKIP: '' @ PVCName pvc
                @ '' (no volume selected)'' @ newline @ after) \<and>
         sameButOutput (DryRun (pre @ pvc # post) w) w \<and>
         migrateFrom kubectl i n (pvc # post) w =
           migrateFrom kubectl (i + 1) n post
             (Printf (''Skipping '' @ PVCName pvc @ '' (no volume selected)'' @ newline) w) \<and>
         fst (StartMigration kubectl (pre @ pvc # post) w) =
           fst (StartMigration kubectl (pre @ post) w) \<and>
         sameButOutput (snd (StartMigration kubectl (pre @ pvc # post) w))
           (snd (StartMigration kubectl (pre @ post) w)) \<and>
         ((\<forall>p\<in>set pre \<union> set post. MatchedVolume p = None) \<longrightarrow>
            fst (StartMigration kubectl (pre @ pvc # post) w) = Inr () \<and>
            trace (snd (StartMigration kubectl (pre @ pvc # post) w)) = trace w)"
proof (intro conjI impI)
  let ?h = "newline @ ''=== Dry Run - Migration Plan ==='' @ newline"
  let ?line = "''['' @ itoa (length pre + 1) @ ''] SKIP: '' @ PVCName pvc
    @ '' (no volume selected)'' @ newline"
  let ?foot = "''Use --execute to run the actual migration'' @ newline"
  define w1 where "w1 = dryRunFrom 0 pre (Printf ?h w)"
  from dryRunFrom_effect [of 0 pre "Printf ?h w"] obtain t1 where
    t1: "stdout w1 = stdout w @ ?h @ t1" and s1: "sameButOutput w1 w"
    by (auto simp: w1_def)
  define w2 where "w2 = dryRunFrom (length pre + 1) post (Printf ?line w1)"
  from dryRunFrom_effect [of "length pre + 1" post "Printf ?line w1"] obtain t2 where
    t2: "stdout w2 = stdout w1 @ ?line @ t2" and s2: "sameButOutput w2 w1"
    by (auto simp: w2_def)
  have dr: "DryRun (pre @ pvc # post) w = Printf ?foot w2"
    using assms by (simp add: DryRun_def dryRunFrom_append w1_def w2_def)
  have "stdout (DryRun (pre @ pvc # post) w) =
      stdout w @ (?h @ t1) @ ''['' @ itoa (length pre + 1) @ ''] SKIP: '' @ PVCName pvc
        @ '' (no volume selected)'' @ newline @ (t2 @ ?foot)"
    by (simp add: dr t1 t2)
  then show "\<exists>before after.
            stdout (DryRun (pre @ pvc # post) w) =
              stdout w @ before @ ''['' @ itoa (length pre + 1) @ ''] SKIP: '' @ PVCName pvc
                @ '' (no volume selected)'' @ newline @ after"
    by blast
  show "sameButOutput (DryRun (pre @ pvc # post) w) w"
    using s1 s2 by (simp add: dr sameButOutput_def)
next
  show "migrateFrom kubectl i n (pvc # post) w =
           migrateFrom kubectl (i + 1) n post
             (Printf (''Skipping '' @ PVCName pvc @ '' (no volume selected)'' @ newline) w)"
    using assms by simp
next
  let ?h = "newline @ ''=== Starting Migration Process ==='' @ newline"
  obtain res w' where mf:
    "migrateFrom kubectl 0 (length (pre @ pvc # post)) (pre @ pvc # post) (Printf ?h w) = (res, w')"
    by (cases "migrateFrom kubectl 0 (length (pre @ pvc # post)) (pre @ pvc # post) (Printf ?h w)")
  from migrateFrom_drop_unmatched [OF assms sameButOutput_refl mf, of 0 "length (pre @ post)"]
  obtain v' where mv:
    "migrateFrom kubectl 0 (length (pre @ post)) (pre @ post) (Printf ?h w) = (res, v')"
    and s: "sameButOutput w' v'"
    by blast
  from mf mv s show "fst (StartMigration kubectl (pre @ pvc # post) w) =
      fst (StartMigration kubectl (pre @ post) w)"
    by (auto simp: StartMigration_def split: sum.splits)
  from mf mv s show "sameButOutput (snd (StartMigration kubectl (pre @ pvc # post) w))
      (snd (StartMigration kubectl (pre @ post) w))"
    by (auto simp: StartMigration_def split: sum.splits)
next
  let ?h = "newline @ ''=== Starting Migration Process ==='' @ newline"
  assume "\<forall>p\<in>set pre \<union> set post. MatchedVolume p = None"
  with assms have all: "\<forall>p\<in>set (pre @ pvc # post). MatchedVolume p = None"
    by auto
  from migrateFrom_all_unmatched [OF all, of kubectl 0 "length (pre @ pvc # post)" "Printf ?h w"]
  show "fst (StartMigration kubectl (pre @ pvc # post) w) = Inr ()"
    by (auto simp: StartMigration_def split: sum.splits prod.splits)
  from migrateFrom_all_unmatched [OF all, of kubectl 0 "length (pre @ pvc # post)" "Printf ?h w"]
  show "trace (snd (StartMigration kubectl (pre @ pvc # post) w)) = trace w"
    by (auto simp: StartMigration_def sameButOutput_def split: sum.splits prod.splits)
qed


theorem unmatched_is_skipped_witness:
  "stdout (DryRun ([exampleMatched] @ exampleUnmatched # []) exampleStart) =
     newline @ ''=== Dry Run - Migration Plan ==='' @ newline @
     ''[1] MIGRATE: svc-app-data'' @ newline @
     ''    Source: app_data (500MB)'' @ newline @
     ''    Target: PVC default/svc-app-data (1Gi)'' @ newline @
     ''    Path: /var/lib/docker/volumes/app_data/_data '' @ rightArrow @ '' PVC mount'' @ newline @
     newline @
     ''[2] SKIP: svc-db-data (no volume selected)'' @ newline @
     ''Use --execute to run the actual migration'' @ newline \<and>
   StartMigration examplePodFails ([] @ exampleUnmatched # []) exampleStart =
     (Inr (),
      \<lparr>stdin = [],
       stdout = newline @ ''=== Starting Migration Process ==='' @ newline @
         ''Skipping svc-db-data (no volume selected)'' @ newline @
         newline @ partyPopper @ '' Migration completed successfully!'' @ newline,
       clock = 0, trace = []\<rparr>)"
proof -
  have h: "MatchedVolume exampleUnmatched = None"
    by (simp add: exampleUnmatched_def)
  have d: "stdout (DryRun ([exampleMatched] @ exampleUnmatched # []) exampleStart) =
     newline @ ''=== Dry Run - Migration Plan ==='' @ newline @
     ''[1] MIGRATE: svc-app-data'' @ newline @
     ''    Source: app_data (500MB)'' @ newline @
     ''    Target: PVC default/svc-app-data (1Gi)'' @ newline @
     ''    Path: /var/lib/docker/volumes/app_data/_data '' @ rightArrow @ '' PVC mount'' @ newline @
     newline @
     ''[2] SKIP: svc-db-data (no volume selected)'' @ newline @
     ''Use --execute to run the actual migration'' @ newline"
    by (simp add: DryRun_def exampleMatched_def exampleUnmatched_def exampleAppData_def
        exampleStart_def Printf_def itoa.simps)
  have m: "StartMigration examplePodFails ([] @ exampleUnmatched # []) exampleStart =
     (Inr (),
      \<lparr>stdin = [],
       stdout = newline @ ''=== Starting Migration Process ==='' @ newline @
         ''Skipping svc-db-data (no volume selected)'' @ newline @
         newline @ partyPopper @ '' Migration completed successfully!'' @ newline,
       clock = 0, trace = []\<rparr>)"
    by (simp add: StartMigration_def exampleUnmatched_def exampleStart_def Printf_def)
  from unmatched_is_skipped [OF h, of "[]" "[]" exampleStart examplePodFails] d m
  show ?thesis by simp
qed

end
